theory Spec2Isabelle
  imports Complex_Main
begin

section \<open>Data model of the arena server\<close>

text \<open>
  The server of \<^verbatim>\<open>packages/server/src/index.ts\<close> is embedded function by function.
  A JavaScript \<^verbatim>\<open>number\<close> is read as a \<^typ>\<open>real\<close>: rounding, infinities and NaN of
  IEEE doubles are outside the model. \<^verbatim>\<open>Math.hypot\<close>, \<^verbatim>\<open>Math.exp\<close> and
  \<^verbatim>\<open>Math.sin\<close> are the real functions; every call of \<^verbatim>\<open>Math.random\<close> is an
  argument of the function that makes the call.

  Field names follow the source. Where two object types of the source share a field name
  the record fields carry a prefix: \<open>px, py, pvx, pvy, pid\<close> for a player's
  \<^verbatim>\<open>x, y, vx, vy, id\<close>; \<open>cx, cy, cvx, cvy\<close> for the circle's; \<open>shActive, shDuration,
  shElapsed\<close> and \<open>puActive, puDuration, puElapsed\<close> for the \<^verbatim>\<open>active, duration,
  elapsed\<close> of the shift and pulse sub-states; \<open>snapX, snapY\<close> for the snapshot.
\<close>

record PlayerInput =
  up :: bool
  down :: bool
  left :: bool
  right :: bool
  dash :: bool

text \<open>
  A socket as the server sees it at the moment of a send: its identity and whether
  \<^verbatim>\<open>ws.readyState === ws.OPEN\<close>.
\<close>

record WebSocket =
  wsId :: nat
  wsOpen :: bool

record Player =
  pid :: string
  nickname :: string
  ws :: WebSocket
  input :: PlayerInput
  px :: real
  py :: real
  pvx :: real
  pvy :: real
  lastDir :: "real \<times> real"
  dashCooldown :: real
  hp :: real
  alive :: bool
  dominationTime :: real

record ShiftState =
  shActive :: bool
  startX :: real
  startY :: real
  targetX :: real
  targetY :: real
  shDuration :: real
  shElapsed :: real

record PulseState =
  puActive :: bool
  puDuration :: real
  puElapsed :: real
  amplitude :: real

record CircleState =
  cx :: real
  cy :: real
  cvx :: real
  cvy :: real
  driftSpeed :: real
  driftAccel :: real
  driftTimer :: real
  baseRadius :: real
  minRadius :: real
  maxRadius :: real
  shrinkRate :: real
  innerFactor :: real
  shift :: ShiftState
  pulse :: PulseState

text \<open>
  \<^verbatim>\<open>Room.players\<close> is a JavaScript \<^verbatim>\<open>Map\<close> from player id to player, iterated in
  insertion order. Its only insertion is \<^verbatim>\<open>room.players.set(playerId, player)\<close> with
  \<^verbatim>\<open>player.id = playerId\<close>, so the map is the list of its values in insertion order, each
  value carrying its key in \<open>pid\<close>.
\<close>

record Room =
  code :: string
  players :: "Player list"
  tick :: nat
  elapsedMs :: real
  nextShiftMs :: real
  nextPulseMs :: real
  nextResizeMs :: real
  nextAccelMs :: real
  circle :: CircleState
  roundEnded :: bool

record SafeCircleSnapshot =
  snapX :: real
  snapY :: real
  radius :: real
  innerRadius :: real

datatype ActiveEvent =
    SHIFT real real real
  | PULSE real real
  | RESIZE real
  | ACCEL real real

datatype Reason = LastAlive | Timeout

datatype ServerMessage =
    Welcome string string real real real real
  | Event ActiveEvent
  | Death string string
  | RoundEnd "string option" Reason
  | Error string

text \<open>What an operation sends, in order: the socket's identity and the message.\<close>

type_synonym outbox = "(nat \<times> ServerMessage) list"

subsection \<open>Constants\<close>

definition TICK_RATE :: real where "TICK_RATE = 30"
definition SNAPSHOT_RATE :: real where "SNAPSHOT_RATE = 12"
definition WORLD_width :: real where "WORLD_width = 1200"
definition WORLD_height :: real where "WORLD_height = 800"

definition PLAYER_RADIUS :: real where "PLAYER_RADIUS = 18"
definition MAX_SPEED :: real where "MAX_SPEED = 520"
definition ACCEL_C :: real where "ACCEL_C = 1400"
definition DAMPING :: real where "DAMPING = 3.2"
definition DASH_SPEED :: real where "DASH_SPEED = 720"
definition DASH_COOLDOWN :: real where "DASH_COOLDOWN = 3"
definition COLLISION_PUSH :: real where "COLLISION_PUSH = 520"
definition OUTSIDE_SPEED_MULT :: real where "OUTSIDE_SPEED_MULT = 0.6"
definition OUTSIDE_HP_DRAIN :: real where "OUTSIDE_HP_DRAIN = 12"

definition ROUND_DURATION_MS :: real where "ROUND_DURATION_MS = 180000"
definition SHIFT_INTERVAL_MS :: real where "SHIFT_INTERVAL_MS = 15000"
definition SHIFT_DURATION_MS :: real where "SHIFT_DURATION_MS = 2000"
definition PULSE_INTERVAL_MS :: real where "PULSE_INTERVAL_MS = 18000"
definition PULSE_DURATION_MS :: real where "PULSE_DURATION_MS = 6000"
definition PULSE_AMPLITUDE :: real where "PULSE_AMPLITUDE = 0.12"
definition PULSE_FREQ :: real where "PULSE_FREQ = 5"
definition RESIZE_INTERVAL_MS :: real where "RESIZE_INTERVAL_MS = 22000"
definition ACCEL_INTERVAL_MS :: real where "ACCEL_INTERVAL_MS = 20000"

lemmas constants =
  TICK_RATE_def SNAPSHOT_RATE_def WORLD_width_def WORLD_height_def PLAYER_RADIUS_def
  MAX_SPEED_def ACCEL_C_def DAMPING_def DASH_SPEED_def DASH_COOLDOWN_def
  COLLISION_PUSH_def OUTSIDE_SPEED_MULT_def OUTSIDE_HP_DRAIN_def ROUND_DURATION_MS_def
  SHIFT_INTERVAL_MS_def SHIFT_DURATION_MS_def PULSE_INTERVAL_MS_def PULSE_DURATION_MS_def
  PULSE_AMPLITUDE_def PULSE_FREQ_def RESIZE_INTERVAL_MS_def ACCEL_INTERVAL_MS_def

subsection \<open>Sending\<close>

text \<open>\<^verbatim>\<open>safeSend\<close>: nothing is sent on a socket that is not open.\<close>

definition safeSend :: "WebSocket \<Rightarrow> ServerMessage \<Rightarrow> outbox" where
  "safeSend w message = (if \<not> wsOpen w then [] else [(wsId w, message)])"

text \<open>The loop \<^verbatim>\<open>for (const player of room.players.values()) safeSend(player.ws, message)\<close>.\<close>

fun sendAll :: "Player list \<Rightarrow> ServerMessage \<Rightarrow> outbox" where
  "sendAll [] message = []"
| "sendAll (p # ps) message = safeSend (ws p) message @ sendAll ps message"

subsection \<open>Round end\<close>

text \<open>
  The winner loop of the timeout branch, with its two variables \<^verbatim>\<open>winnerId\<close> and
  \<^verbatim>\<open>bestDomination\<close> as the accumulator.
\<close>

fun dominationLoop :: "Player list \<Rightarrow> string option \<times> real \<Rightarrow> string option \<times> real" where
  "dominationLoop [] acc = acc"
| "dominationLoop (p # ps) (winnerId, bestDomination) =
     (if dominationTime p > bestDomination
      then dominationLoop ps (Some (pid p), dominationTime p)
      else dominationLoop ps (winnerId, bestDomination))"

definition checkRoundEnd :: "Room \<Rightarrow> Room \<times> outbox" where
  "checkRoundEnd room =
     (if roundEnded room then (room, [])
      else if length (players room) < 2 then (room, [])
      else
        let alivePlayers = filter alive (players room) in
        if length alivePlayers \<le> 1 then
          (let winnerId = (case alivePlayers of [] \<Rightarrow> None | p # _ \<Rightarrow> Some (pid p));
               message = RoundEnd winnerId LastAlive
           in (room\<lparr>roundEnded := True\<rparr>, sendAll (players room) message))
        else if elapsedMs room \<ge> ROUND_DURATION_MS then
          (let winnerId = fst (dominationLoop (players room) (None, -1));
               message = RoundEnd winnerId Timeout
           in (room\<lparr>roundEnded := True\<rparr>, sendAll (players room) message))
        else (room, []))"

subsection \<open>Vector helpers and the circle snapshot\<close>

text \<open>\<^verbatim>\<open>Math.hypot(x, y)\<close>.\<close>

definition hypot :: "real \<Rightarrow> real \<Rightarrow> real" where
  "hypot x y = sqrt (x * x + y * y)"

definition normalize :: "real \<Rightarrow> real \<Rightarrow> real \<times> real" where
  "normalize x y =
     (let len = hypot x y in
      if len = 0 then (0, 0) else (x / len, y / len))"

definition clampMagnitude :: "real \<Rightarrow> real \<Rightarrow> real \<Rightarrow> real \<times> real" where
  "clampMagnitude vx vy mx =
     (let len = hypot vx vy in
      if len \<le> mx then (vx, vy)
      else let scale = mx / len in (vx * scale, vy * scale))"

definition getCircleSnapshot :: "CircleState \<Rightarrow> SafeCircleSnapshot" where
  "getCircleSnapshot c =
     (let pulseFactor =
            (if puActive (pulse c)
             then 1 + amplitude (pulse c) * sin (puElapsed (pulse c) * PULSE_FREQ)
             else 1);
          rad = baseRadius c * pulseFactor
      in \<lparr>snapX = cx c, snapY = cy c, radius = rad, innerRadius = rad * innerFactor c\<rparr>)"

definition isOutside :: "Player \<Rightarrow> SafeCircleSnapshot \<Rightarrow> bool" where
  "isOutside player s = (hypot (px player - snapX s) (py player - snapY s) > radius s)"

subsection \<open>Movement integration\<close>

text \<open>
  \<^verbatim>\<open>applyInput\<close> of an alive player runs four steps, each a stretch of the source's body:
  the direction and the acceleration, the dash, damping and the speed clamp, and the
  integration of the position with its clamp to the arena.
\<close>

definition inputDirection :: "PlayerInput \<Rightarrow> real \<times> real" where
  "inputDirection inp =
     (let dirX = (if right inp then 1 else 0) - (if left inp then 1 else 0);
          dirY = (if down inp then 1 else 0) - (if up inp then 1 else 0)
      in normalize dirX dirY)"

definition accelerate :: "Player \<Rightarrow> real \<Rightarrow> real \<Rightarrow> Player" where
  "accelerate player dt speedMultiplier =
     (let dir = inputDirection (input player);
          p1 = (if fst dir \<noteq> 0 \<or> snd dir \<noteq> 0 then player\<lparr>lastDir := dir\<rparr> else player)
      in p1\<lparr>pvx := pvx p1 + fst dir * ACCEL_C * speedMultiplier * dt,
             pvy := pvy p1 + snd dir * ACCEL_C * speedMultiplier * dt\<rparr>)"

definition dashStep :: "Player \<Rightarrow> Player" where
  "dashStep player =
     (if dash (input player) \<and> dashCooldown player \<le> 0
      then player\<lparr>pvx := pvx player + fst (lastDir player) * DASH_SPEED,
                  pvy := pvy player + snd (lastDir player) * DASH_SPEED,
                  dashCooldown := DASH_COOLDOWN\<rparr>
      else player)"

definition dampStep :: "Player \<Rightarrow> real \<Rightarrow> Player" where
  "dampStep player dt =
     (let damping = exp (- DAMPING * dt);
          p1 = player\<lparr>pvx := pvx player * damping, pvy := pvy player * damping\<rparr>;
          clamped = clampMagnitude (pvx p1) (pvy p1) MAX_SPEED
      in p1\<lparr>pvx := fst clamped, pvy := snd clamped\<rparr>)"

definition integrate :: "Player \<Rightarrow> real \<Rightarrow> Player" where
  "integrate player dt =
     (let p1 = player\<lparr>px := px player + pvx player * dt, py := py player + pvy player * dt\<rparr>
      in p1\<lparr>px := max PLAYER_RADIUS (min (WORLD_width - PLAYER_RADIUS) (px p1)),
             py := max PLAYER_RADIUS (min (WORLD_height - PLAYER_RADIUS) (py p1))\<rparr>)"

definition applyInput :: "Player \<Rightarrow> real \<Rightarrow> real \<Rightarrow> Player" where
  "applyInput player dt speedMultiplier =
     (if \<not> alive player then player
      else integrate (dampStep (dashStep (accelerate player dt speedMultiplier)) dt) dt)"

subsection \<open>Collision resolution\<close>

text \<open>
  The body of the inner loop of \<^verbatim>\<open>resolveCollisions\<close> for two alive players \<open>a\<close> and
  \<open>b\<close>, from \<^verbatim>\<open>const dx = b.x - a.x\<close> on.
\<close>

definition collide :: "Player \<Rightarrow> Player \<Rightarrow> Player \<times> Player" where
  "collide a b =
     (let dx = px b - px a;
          dy = py b - py a;
          dist = hypot dx dy;
          minDist = PLAYER_RADIUS * 2
      in if dist = 0 \<or> dist \<ge> minDist then (a, b)
         else
           let overlap = minDist - dist;
               nx = dx / dist;
               ny = dy / dist
           in (a\<lparr>px := px a - nx * overlap * 0.5, py := py a - ny * overlap * 0.5,
                  pvx := pvx a - nx * COLLISION_PUSH, pvy := pvy a - ny * COLLISION_PUSH\<rparr>,
               b\<lparr>px := px b + nx * overlap * 0.5, py := py b + ny * overlap * 0.5,
                  pvx := pvx b + nx * COLLISION_PUSH, pvy := pvy b + ny * COLLISION_PUSH\<rparr>))"

text \<open>
  The inner loop \<^verbatim>\<open>for (let j = i + 1; ...)\<close>: \<open>a\<close> is \<^verbatim>\<open>players[i]\<close> and the list
  is \<^verbatim>\<open>players[i+1..]\<close>; both are updated in place by the source.
\<close>

fun innerLoop :: "Player \<Rightarrow> Player list \<Rightarrow> Player \<times> Player list" where
  "innerLoop a [] = (a, [])"
| "innerLoop a (b # bs) =
     (if \<not> alive b then (case innerLoop a bs of (a', bs') \<Rightarrow> (a', b # bs'))
      else case collide a b of (a1, b1) \<Rightarrow>
             (case innerLoop a1 bs of (a2, bs') \<Rightarrow> (a2, b1 # bs')))"

lemma innerLoop_length: "innerLoop a bs = (a', bs') \<Longrightarrow> length bs' = length bs"
  by (induction bs arbitrary: a a' bs') (auto split: if_splits prod.splits)

text \<open>
  The outer loop: \<^verbatim>\<open>players[i]\<close> is the head, and once its inner loop is done no later
  iteration touches it.
\<close>

function resolveCollisions :: "Player list \<Rightarrow> Player list" where
  "resolveCollisions [] = []"
| "resolveCollisions (a # rest) =
     (if \<not> alive a then a # resolveCollisions rest
      else case innerLoop a rest of (a', rest') \<Rightarrow> a' # resolveCollisions rest')"
  by pat_completeness auto
termination
  by (relation "measure length") (auto dest!: innerLoop_length [OF sym])

subsection \<open>The safe circle\<close>

text \<open>
  The values that the calls of \<^verbatim>\<open>Math.random\<close> return during one tick, one field per
  call site (each site runs at most once in a tick): the drift angle and the drift timer
  in \<^verbatim>\<open>updateCircle\<close>, the two target coordinates in \<^verbatim>\<open>triggerShift\<close>, the target
  radius in \<^verbatim>\<open>triggerResize\<close>. \<^verbatim>\<open>Math.random\<close> returns a number in \<open>[0, 1)\<close>.
\<close>

record Randoms =
  rndAngle :: real
  rndTimer :: real
  rndShiftX :: real
  rndShiftY :: real
  rndResize :: real

definition unitRandom :: "real \<Rightarrow> bool" where
  "unitRandom u = (0 \<le> u \<and> u < 1)"

text \<open>The circle literal that \<^verbatim>\<open>createRoom\<close> and \<^verbatim>\<open>resetRoomRound\<close> both write out.\<close>

definition initialCircle :: CircleState where
  "initialCircle =
     \<lparr>cx = WORLD_width * 0.5, cy = WORLD_height * 0.5, cvx = 1, cvy = 0,
      driftSpeed = 8, driftAccel = 1.2, driftTimer = 2,
      baseRadius = 320, minRadius = 140, maxRadius = 420,
      shrinkRate = 0.7, innerFactor = 0.6,
      shift = \<lparr>shActive = False,
               startX = WORLD_width * 0.5, startY = WORLD_height * 0.5,
               targetX = WORLD_width * 0.5, targetY = WORLD_height * 0.5,
               shDuration = SHIFT_DURATION_MS / 1000, shElapsed = 0\<rparr>,
      pulse = \<lparr>puActive = False, puDuration = PULSE_DURATION_MS / 1000,
               puElapsed = 0, amplitude = PULSE_AMPLITUDE\<rparr>\<rparr>"

definition createRoom :: "string \<Rightarrow> Room" where
  "createRoom c =
     \<lparr>code = c, players = [], tick = 0, elapsedMs = 0,
      nextShiftMs = SHIFT_INTERVAL_MS, nextPulseMs = PULSE_INTERVAL_MS,
      nextResizeMs = RESIZE_INTERVAL_MS, nextAccelMs = ACCEL_INTERVAL_MS,
      circle = initialCircle, roundEnded = False\<rparr>"

definition resetPlayer :: "Player \<Rightarrow> Player" where
  "resetPlayer player = player\<lparr>hp := 100, alive := True, dominationTime := 0, pvx := 0, pvy := 0\<rparr>"

definition resetRoomRound :: "Room \<Rightarrow> Room" where
  "resetRoomRound room =
     room\<lparr>elapsedMs := 0,
          nextShiftMs := SHIFT_INTERVAL_MS, nextPulseMs := PULSE_INTERVAL_MS,
          nextResizeMs := RESIZE_INTERVAL_MS, nextAccelMs := ACCEL_INTERVAL_MS,
          roundEnded := False, circle := initialCircle,
          players := map resetPlayer (players room)\<rparr>"

text \<open>
  \<^verbatim>\<open>updateCircle\<close> on the circle object runs five steps, each a stretch of the source's
  body in its order: drift, bounce, shrink, shift and pulse.
\<close>

definition driftStep :: "CircleState \<Rightarrow> real \<Rightarrow> real \<Rightarrow> real \<Rightarrow> CircleState" where
  "driftStep c dt rAngle rTimer =
     (let c1 = c\<lparr>driftTimer := driftTimer c - dt\<rparr>;
          c2 = (if driftTimer c1 \<le> 0
                then let angle = rAngle * pi * 2
                     in c1\<lparr>cvx := cos angle, cvy := sin angle, driftTimer := 2 + rTimer * 2\<rparr>
                else c1);
          c3 = c2\<lparr>driftSpeed := driftSpeed c2 + driftAccel c2 * dt\<rparr>
      in c3\<lparr>cx := cx c3 + cvx c3 * driftSpeed c3 * dt,
             cy := cy c3 + cvy c3 * driftSpeed c3 * dt\<rparr>)"

definition bounceStep :: "CircleState \<Rightarrow> CircleState" where
  "bounceStep c =
     (let margin = baseRadius c + 20;
          c1 = (if cx c < margin \<or> cx c > WORLD_width - margin
                then c\<lparr>cvx := cvx c * (- 1),
                       cx := max margin (min (WORLD_width - margin) (cx c))\<rparr>
                else c)
      in if cy c1 < margin \<or> cy c1 > WORLD_height - margin
         then c1\<lparr>cvy := cvy c1 * (- 1),
                 cy := max margin (min (WORLD_height - margin) (cy c1))\<rparr>
         else c1)"

definition shrinkStep :: "CircleState \<Rightarrow> real \<Rightarrow> CircleState" where
  "shrinkStep c dt = c\<lparr>baseRadius := max (minRadius c) (baseRadius c - shrinkRate c * dt)\<rparr>"

definition shiftStep :: "CircleState \<Rightarrow> real \<Rightarrow> CircleState" where
  "shiftStep c dt =
     (if shActive (shift c)
      then let sh = (shift c)\<lparr>shElapsed := shElapsed (shift c) + dt\<rparr>;
               t = min 1 (shElapsed sh / shDuration sh);
               c1 = c\<lparr>shift := sh,
                      cx := startX sh + (targetX sh - startX sh) * t,
                      cy := startY sh + (targetY sh - startY sh) * t\<rparr>
           in if t \<ge> 1 then c1\<lparr>shift := sh\<lparr>shActive := False\<rparr>\<rparr> else c1
      else c)"

definition pulseStep :: "CircleState \<Rightarrow> real \<Rightarrow> CircleState" where
  "pulseStep c dt =
     (if puActive (pulse c)
      then let pu = (pulse c)\<lparr>puElapsed := puElapsed (pulse c) + dt\<rparr>
           in if puElapsed pu \<ge> puDuration pu
              then c\<lparr>pulse := pu\<lparr>puActive := False, puElapsed := 0\<rparr>\<rparr>
              else c\<lparr>pulse := pu\<rparr>
      else c)"

definition advanceCircle :: "CircleState \<Rightarrow> real \<Rightarrow> real \<Rightarrow> real \<Rightarrow> CircleState" where
  "advanceCircle c dt rAngle rTimer =
     pulseStep (shiftStep (shrinkStep (bounceStep (driftStep c dt rAngle rTimer)) dt) dt) dt"

definition updateCircle :: "Room \<Rightarrow> real \<Rightarrow> Randoms \<Rightarrow> Room" where
  "updateCircle room dt rnd = room\<lparr>circle := advanceCircle (circle room) dt (rndAngle rnd) (rndTimer rnd)\<rparr>"

definition triggerShift :: "Room \<Rightarrow> Randoms \<Rightarrow> Room \<times> ActiveEvent" where
  "triggerShift room rnd =
     (let margin = max 140 (baseRadius (circle room) * 0.6);
          tx = margin + rndShiftX rnd * (WORLD_width - margin * 2);
          ty = margin + rndShiftY rnd * (WORLD_height - margin * 2)
      in (room\<lparr>circle := (circle room)
                 \<lparr>shift := \<lparr>shActive = True,
                            startX = cx (circle room), startY = cy (circle room),
                            targetX = tx, targetY = ty,
                            shDuration = SHIFT_DURATION_MS / 1000, shElapsed = 0\<rparr>\<rparr>\<rparr>,
          SHIFT tx ty SHIFT_DURATION_MS))"

definition triggerResize :: "Room \<Rightarrow> Randoms \<Rightarrow> Room \<times> ActiveEvent" where
  "triggerResize room rnd =
     (let targetRadius =
            minRadius (circle room) +
            rndResize rnd * (maxRadius (circle room) - minRadius (circle room))
      in (room\<lparr>circle := (circle room)\<lparr>baseRadius := targetRadius\<rparr>\<rparr>, RESIZE targetRadius))"

definition triggerAccel :: "Room \<Rightarrow> Room \<times> ActiveEvent" where
  "triggerAccel room =
     (let speedBoost = 10;
          accelBoost = 0.6
      in (room\<lparr>circle := (circle room)
                 \<lparr>driftSpeed := driftSpeed (circle room) + speedBoost,
                  driftAccel := driftAccel (circle room) + accelBoost\<rparr>\<rparr>,
          ACCEL speedBoost accelBoost))"

definition triggerPulse :: "Room \<Rightarrow> Room \<times> ActiveEvent" where
  "triggerPulse room =
     (room\<lparr>circle := (circle room)
             \<lparr>pulse := \<lparr>puActive = True, puDuration = PULSE_DURATION_MS / 1000,
                        puElapsed = 0, amplitude = PULSE_AMPLITUDE\<rparr>\<rparr>\<rparr>,
      PULSE PULSE_DURATION_MS PULSE_AMPLITUDE)"

definition broadcastEvent :: "Room \<Rightarrow> ActiveEvent \<Rightarrow> outbox" where
  "broadcastEvent room ev = sendAll (players room) (Event ev)"

definition broadcastDeath :: "Player list \<Rightarrow> Player \<Rightarrow> outbox" where
  "broadcastDeath members player = sendAll members (Death (pid player) (nickname player))"

subsection \<open>One tick of a room\<close>

text \<open>
  \<^verbatim>\<open>updateRoom\<close> of an active room runs five phases and then \<^verbatim>\<open>checkRoundEnd\<close>. Each
  phase below is a stretch of the source's body, in its order.
\<close>

text \<open>Elapsed time, tick counter, \<^verbatim>\<open>updateCircle(room, dt)\<close>.\<close>

definition advancePhase :: "Room \<Rightarrow> real \<Rightarrow> Randoms \<Rightarrow> Room" where
  "advancePhase room dt rnd =
     (let r1 = room\<lparr>elapsedMs := elapsedMs room + dt * 1000\<rparr>;
          r2 = r1\<lparr>tick := tick r1 + 1\<rparr>
      in updateCircle r2 dt rnd)"

text \<open>The body of the first loop over the players.\<close>

definition movePlayer :: "SafeCircleSnapshot \<Rightarrow> real \<Rightarrow> Player \<Rightarrow> Player" where
  "movePlayer currentCircle dt player =
     (let p1 = player\<lparr>dashCooldown := max 0 (dashCooldown player - dt)\<rparr>;
          outside = isOutside p1 currentCircle;
          speedMultiplier = (if outside then OUTSIDE_SPEED_MULT else 1)
      in applyInput p1 dt speedMultiplier)"

text \<open>The first snapshot \<^verbatim>\<open>currentCircle\<close> and the movement loop.\<close>

definition movePhase :: "Room \<Rightarrow> real \<Rightarrow> Room" where
  "movePhase room dt =
     (let currentCircle = getCircleSnapshot (circle room)
      in room\<lparr>players := map (movePlayer currentCircle dt) (players room)\<rparr>)"

text \<open>\<^verbatim>\<open>resolveCollisions(Array.from(room.players.values()))\<close>: the array holds the player
  objects of the map, so the updates are the room's.\<close>

definition collidePhase :: "Room \<Rightarrow> Room" where
  "collidePhase room = room\<lparr>players := resolveCollisions (players room)\<rparr>"

text \<open>
  The body of the second loop. \<open>members\<close> are the room's players, to whom a death is
  broadcast (only their sockets are read, and the loop does not change them).
\<close>

definition damagePlayer :: "Player list \<Rightarrow> SafeCircleSnapshot \<Rightarrow> real \<Rightarrow> Player \<Rightarrow> Player \<times> outbox" where
  "damagePlayer members circleSnapshot dt player =
     (if \<not> alive player then (player, [])
      else
        let outsideNow = isOutside player circleSnapshot;
            p1 = (if outsideNow
                  then player\<lparr>hp := max 0 (hp player - OUTSIDE_HP_DRAIN * dt)\<rparr>
                  else player)
        in if hp p1 \<le> 0
           then (let p2 = p1\<lparr>alive := False, pvx := 0, pvy := 0\<rparr>
                 in (p2, broadcastDeath members p2))
           else
             let dist = hypot (px p1 - snapX circleSnapshot) (py p1 - snapY circleSnapshot)
             in (if dist \<le> innerRadius circleSnapshot
                 then p1\<lparr>dominationTime := dominationTime p1 + dt\<rparr>
                 else p1, []))"

fun damageLoop :: "Player list \<Rightarrow> SafeCircleSnapshot \<Rightarrow> real \<Rightarrow> Player list \<Rightarrow> Player list \<times> outbox" where
  "damageLoop members circleSnapshot dt [] = ([], [])"
| "damageLoop members circleSnapshot dt (player # rest) =
     (case damagePlayer members circleSnapshot dt player of (player', out) \<Rightarrow>
        (case damageLoop members circleSnapshot dt rest of (rest', out') \<Rightarrow>
           (player' # rest', out @ out')))"

text \<open>The second snapshot \<^verbatim>\<open>circleSnapshot\<close> and the damage and domination loop.\<close>

definition damagePhase :: "Room \<Rightarrow> real \<Rightarrow> Room \<times> outbox" where
  "damagePhase room dt =
     (let circleSnapshot = getCircleSnapshot (circle room)
      in case damageLoop (players room) circleSnapshot dt (players room) of
           (ps, out) \<Rightarrow> (room\<lparr>players := ps\<rparr>, out))"

text \<open>The four scheduled events, in the source's order: shift, pulse, resize, accel.\<close>

definition shiftEvent :: "Room \<Rightarrow> Randoms \<Rightarrow> Room \<times> outbox" where
  "shiftEvent room rnd =
     (if elapsedMs room \<ge> nextShiftMs room
      then case triggerShift (room\<lparr>nextShiftMs := nextShiftMs room + SHIFT_INTERVAL_MS\<rparr>) rnd of
             (room', ev) \<Rightarrow> (room', broadcastEvent room' ev)
      else (room, []))"

definition pulseEvent :: "Room \<Rightarrow> Room \<times> outbox" where
  "pulseEvent room =
     (if elapsedMs room \<ge> nextPulseMs room
      then case triggerPulse (room\<lparr>nextPulseMs := nextPulseMs room + PULSE_INTERVAL_MS\<rparr>) of
             (room', ev) \<Rightarrow> (room', broadcastEvent room' ev)
      else (room, []))"

definition resizeEvent :: "Room \<Rightarrow> Randoms \<Rightarrow> Room \<times> outbox" where
  "resizeEvent room rnd =
     (if elapsedMs room \<ge> nextResizeMs room
      then case triggerResize (room\<lparr>nextResizeMs := nextResizeMs room + RESIZE_INTERVAL_MS\<rparr>) rnd of
             (room', ev) \<Rightarrow> (room', broadcastEvent room' ev)
      else (room, []))"

definition accelEvent :: "Room \<Rightarrow> Room \<times> outbox" where
  "accelEvent room =
     (if elapsedMs room \<ge> nextAccelMs room
      then case triggerAccel (room\<lparr>nextAccelMs := nextAccelMs room + ACCEL_INTERVAL_MS\<rparr>) of
             (room', ev) \<Rightarrow> (room', broadcastEvent room' ev)
      else (room, []))"

definition eventPhase :: "Room \<Rightarrow> Randoms \<Rightarrow> Room \<times> outbox" where
  "eventPhase room rnd =
     (case shiftEvent room rnd of (r1, out1) \<Rightarrow>
      case pulseEvent r1 of (r2, out2) \<Rightarrow>
      case resizeEvent r2 rnd of (r3, out3) \<Rightarrow>
      case accelEvent r3 of (r4, out4) \<Rightarrow>
        (r4, out1 @ out2 @ out3 @ out4))"

definition updateRoom :: "Room \<Rightarrow> real \<Rightarrow> Randoms \<Rightarrow> Room \<times> outbox" where
  "updateRoom room dt rnd =
     (if roundEnded room then (room\<lparr>tick := tick room + 1\<rparr>, [])
      else
        case damagePhase (collidePhase (movePhase (advancePhase room dt rnd) dt)) dt of
          (r1, out1) \<Rightarrow>
        case eventPhase r1 rnd of (r2, out2) \<Rightarrow>
        case checkRoundEnd r2 of (r3, out3) \<Rightarrow>
          (r3, out1 @ out2 @ out3))"

subsection \<open>Connections\<close>

text \<open>
  The registry \<^verbatim>\<open>rooms\<close> maps a room code to a room object, and the closure of a
  connection keeps a reference to its room object in \<^verbatim>\<open>currentRoom\<close>. Room objects live
  in a store indexed by references; \<open>nextRef\<close> is the reference the next \<^verbatim>\<open>createRoom\<close>
  object gets.
\<close>

record Server =
  store :: "nat \<rightharpoonup> Room"
  rooms :: "string \<rightharpoonup> nat"
  nextRef :: nat

text \<open>The two variables \<^verbatim>\<open>currentRoom\<close> and \<^verbatim>\<open>playerId\<close> of a connection's closure.\<close>

record Session =
  currentRoom :: "nat option"
  playerId :: "string option"

datatype ClientMessage =
    Join string string
  | Input real PlayerInput

text \<open>
  What arrives on a connection: text that \<^verbatim>\<open>JSON.parse\<close> rejects, a message of the
  protocol, or an object whose \<^verbatim>\<open>type\<close> is neither \<^verbatim>\<open>"join"\<close> nor \<^verbatim>\<open>"input"\<close>.
\<close>

datatype Incoming = Unparsable | Message ClientMessage | OtherType

text \<open>
  What a join draws: the result of \<^verbatim>\<open>randomId()\<close> and the two \<^verbatim>\<open>Math.random()\<close> of the
  spawn position.
\<close>

record JoinRandoms =
  newId :: string
  rndX :: real
  rndY :: real

text \<open>
  Strings are read as ASCII: \<^verbatim>\<open>trim\<close> strips the ASCII white space at both ends and
  \<^verbatim>\<open>toUpperCase\<close> maps \<open>a..z\<close> to \<open>A..Z\<close>.
\<close>

definition isSpace :: "char \<Rightarrow> bool" where
  "isSpace c = (c \<in> set [CHR '' '', CHR 0x09, CHR 0x0A, CHR 0x0B, CHR 0x0C, CHR 0x0D])"

definition trim :: "string \<Rightarrow> string" where
  "trim s = rev (dropWhile isSpace (rev (dropWhile isSpace s)))"

definition toUpperChar :: "char \<Rightarrow> char" where
  "toUpperChar c =
     (let n = (of_char c :: nat) in if 97 \<le> n \<and> n \<le> 122 then char_of (n - 32) else c)"

definition toUpperCase :: "string \<Rightarrow> string" where
  "toUpperCase s = map toUpperChar s"

text \<open>\<^verbatim>\<open>Map.get\<close>, \<^verbatim>\<open>Map.set\<close> and \<^verbatim>\<open>Map.delete\<close> on the players of a room.\<close>

fun playersGet :: "Player list \<Rightarrow> string \<Rightarrow> Player option" where
  "playersGet [] k = None"
| "playersGet (p # ps) k = (if pid p = k then Some p else playersGet ps k)"

fun playersSet :: "Player list \<Rightarrow> string \<Rightarrow> Player \<Rightarrow> Player list" where
  "playersSet [] k v = [v]"
| "playersSet (p # ps) k v = (if pid p = k then v # ps else p # playersSet ps k v)"

definition playersDelete :: "Player list \<Rightarrow> string \<Rightarrow> Player list" where
  "playersDelete ps k = filter (\<lambda>p. pid p \<noteq> k) ps"

definition onJoin :: "Server \<Rightarrow> WebSocket \<Rightarrow> JoinRandoms \<Rightarrow> string \<Rightarrow> string \<Rightarrow> Server \<times> Session \<times> outbox" where
  "onJoin srv w jr rawCode rawNick =
     (let roomCode = toUpperCase (trim rawCode);
          nick = (let n = take 16 (trim rawNick) in if n = [] then ''Player'' else n);
          (ref, room, srv1) =
            (case (case rooms srv roomCode of None \<Rightarrow> None
                   | Some r \<Rightarrow> map_option (Pair r) (store srv r)) of
               Some (r, existing) \<Rightarrow> (r, existing, srv)
             | None \<Rightarrow> (nextRef srv, createRoom roomCode, srv\<lparr>nextRef := nextRef srv + 1\<rparr>));
          player = \<lparr>pid = newId jr, nickname = nick, ws = w,
                    input = \<lparr>up = False, down = False, left = False, right = False, dash = False\<rparr>,
                    px = cx (circle room) + (rndX jr - 0.5) * 120,
                    py = cy (circle room) + (rndY jr - 0.5) * 120,
                    pvx = 0, pvy = 0, lastDir = (0, - 1), dashCooldown = 0,
                    hp = 100, alive = True, dominationTime = 0\<rparr>;
          room1 = room\<lparr>players := playersSet (players room) (newId jr) player\<rparr>;
          room2 = (if roundEnded room1 then resetRoomRound room1 else room1)
      in (srv1\<lparr>store := (store srv1)(ref \<mapsto> room2), rooms := (rooms srv1)(roomCode \<mapsto> ref)\<rparr>,
          \<lparr>currentRoom = Some ref, playerId = Some (newId jr)\<rparr>,
          safeSend w (Welcome (newId jr) roomCode SNAPSHOT_RATE TICK_RATE WORLD_width WORLD_height)))"

definition onInput :: "Server \<Rightarrow> Session \<Rightarrow> PlayerInput \<Rightarrow> Server" where
  "onInput srv ses inp =
     (case currentRoom ses of
        None \<Rightarrow> srv
      | Some ref \<Rightarrow>
          (case store srv ref of
             None \<Rightarrow> srv
           | Some room \<Rightarrow>
               (case playerId ses of
                  None \<Rightarrow> srv
                | Some k \<Rightarrow>
                    (case playersGet (players room) k of
                       None \<Rightarrow> srv
                     | Some player \<Rightarrow>
                         if \<not> alive player then srv
                         else srv\<lparr>store := (store srv)
                                (ref \<mapsto> room\<lparr>players :=
                                   playersSet (players room) k (player\<lparr>input := inp\<rparr>)\<rparr>)\<rparr>))))"

text \<open>
  The \<^verbatim>\<open>message\<close> handler of a connection with socket \<open>w\<close>. \<^verbatim>\<open>!playerId\<close> holds of
  \<^verbatim>\<open>null\<close> and of the empty string.
\<close>

definition onMessage :: "Server \<Rightarrow> Session \<Rightarrow> WebSocket \<Rightarrow> JoinRandoms \<Rightarrow> Incoming \<Rightarrow> Server \<times> Session \<times> outbox" where
  "onMessage srv ses w jr msg =
     (case msg of
        Unparsable \<Rightarrow> (srv, ses, safeSend w (Error ''Invalid message.''))
      | OtherType \<Rightarrow> (srv, ses, [])
      | Message (Join rawCode rawNick) \<Rightarrow>
          if currentRoom ses \<noteq> None then (srv, ses, safeSend w (Error ''Already joined.''))
          else onJoin srv w jr rawCode rawNick
      | Message (Input sq inp) \<Rightarrow>
          if currentRoom ses = None \<or> playerId ses = None \<or> playerId ses = Some []
          then (srv, ses, safeSend w (Error ''Join a room first.''))
          else (onInput srv ses inp, ses, []))"

text \<open>The \<^verbatim>\<open>close\<close> handler.\<close>

definition onClose :: "Server \<Rightarrow> Session \<Rightarrow> Server" where
  "onClose srv ses =
     (case currentRoom ses of
        None \<Rightarrow> srv
      | Some ref \<Rightarrow>
          (case playerId ses of
             None \<Rightarrow> srv
           | Some k \<Rightarrow>
               if k = [] then srv
               else
                 (case store srv ref of
                    None \<Rightarrow> srv
                  | Some room \<Rightarrow>
                      let room1 = room\<lparr>players := playersDelete (players room) k\<rparr>;
                          srv1 = srv\<lparr>store := (store srv)(ref \<mapsto> room1)\<rparr>
                      in if length (players room1) = 0
                         then srv1\<lparr>rooms := (rooms srv1)(code room1 := None)\<rparr>
                         else srv1)))"

section \<open>Example rooms\<close>

text \<open>A player as a join creates it, at a given position, on an open socket.\<close>

definition examplePlayer :: "string \<Rightarrow> nat \<Rightarrow> real \<Rightarrow> real \<Rightarrow> Player" where
  "examplePlayer k n x0 y0 =
     \<lparr>pid = k, nickname = ''Player'', ws = \<lparr>wsId = n, wsOpen = True\<rparr>,
      input = \<lparr>up = False, down = False, left = False, right = False, dash = False\<rparr>,
      px = x0, py = y0, pvx = 0, pvy = 0, lastDir = (0, - 1), dashCooldown = 0,
      hp = 100, alive = True, dominationTime = 0\<rparr>"

text \<open>One player, at the moment the round duration is reached.\<close>

definition soloRoom :: Room where
  "soloRoom = (createRoom ''X'')\<lparr>players := [examplePlayer ''A'' 1 600 400],
                                 elapsedMs := ROUND_DURATION_MS\<rparr>"

text \<open>Two players, the first of them dead.\<close>

definition duelRoom :: Room where
  "duelRoom = (createRoom ''X'')
     \<lparr>players := [(examplePlayer ''A'' 1 600 400)\<lparr>alive := False, hp := 0\<rparr>,
                  examplePlayer ''B'' 2 620 400]\<rparr>"

text \<open>Three alive players with domination times 5.0, 3.2 and 5.0, at the round duration.\<close>

definition trioRoom :: Room where
  "trioRoom = (createRoom ''X'')
     \<lparr>players := [(examplePlayer ''A'' 1 600 400)\<lparr>dominationTime := 5.0\<rparr>,
                  (examplePlayer ''B'' 2 650 400)\<lparr>dominationTime := 3.2\<rparr>,
                  (examplePlayer ''C'' 3 700 400)\<lparr>dominationTime := 5.0\<rparr>],
      elapsedMs := ROUND_DURATION_MS\<rparr>"

section \<open>The round-end rule\<close>

lemma sendAll_eq:
  "sendAll ps m = map (\<lambda>p. (wsId (ws p), m)) (filter (\<lambda>p. wsOpen (ws p)) ps)"
  by (induction ps) (auto simp: safeSend_def)

lemma checkRoundEnd_lastAlive_eq:
  assumes "\<not> roundEnded room" and "2 \<le> length (players room)"
    and "length (filter alive (players room)) \<le> 1"
  shows "checkRoundEnd room =
    (room\<lparr>roundEnded := True\<rparr>,
     sendAll (players room)
       (RoundEnd (case filter alive (players room) of [] \<Rightarrow> None | p # _ \<Rightarrow> Some (pid p)) LastAlive))"
  using assms by (simp add: checkRoundEnd_def Let_def)

lemma dominationLoop_result:
  "dominationLoop ps (w, b) = (w', b') \<Longrightarrow>
     b \<le> b' \<and> (\<forall>p \<in> set ps. dominationTime p \<le> b') \<and>
     (w' = w \<and> b' = b \<or>
      (\<exists>k < length ps. w' = Some (pid (ps ! k)) \<and> dominationTime (ps ! k) = b' \<and> b < b' \<and>
         (\<forall>j < k. dominationTime (ps ! j) < b')))"
proof (induction ps arbitrary: w b)
  case Nil
  then show ?case by simp
next
  case (Cons p ps)
  show ?case
  proof (cases "dominationTime p > b")
    case True
    with Cons.prems have run: "dominationLoop ps (Some (pid p), dominationTime p) = (w', b')"
      by simp
    from Cons.IH [OF run] have le: "dominationTime p \<le> b'"
      and all: "\<forall>q \<in> set ps. dominationTime q \<le> b'"
      and alt: "w' = Some (pid p) \<and> b' = dominationTime p \<or>
         (\<exists>k < length ps. w' = Some (pid (ps ! k)) \<and> dominationTime (ps ! k) = b' \<and>
            dominationTime p < b' \<and> (\<forall>j < k. dominationTime (ps ! j) < b'))"
      by blast+
    from alt have "\<exists>k < length (p # ps). w' = Some (pid ((p # ps) ! k)) \<and>
        dominationTime ((p # ps) ! k) = b' \<and> b < b' \<and>
        (\<forall>j < k. dominationTime ((p # ps) ! j) < b')"
    proof
      assume "w' = Some (pid p) \<and> b' = dominationTime p"
      with True show ?thesis by (intro exI [of _ 0]) simp
    next
      assume "\<exists>k < length ps. w' = Some (pid (ps ! k)) \<and> dominationTime (ps ! k) = b' \<and>
            dominationTime p < b' \<and> (\<forall>j < k. dominationTime (ps ! j) < b')"
      then obtain k where k: "k < length ps" "w' = Some (pid (ps ! k))"
        "dominationTime (ps ! k) = b'" "dominationTime p < b'"
        "\<forall>j < k. dominationTime (ps ! j) < b'" by blast
      have "\<forall>j < Suc k. dominationTime ((p # ps) ! j) < b'"
        using k(4,5) by (auto simp: nth_Cons split: nat.splits)
      with k True show ?thesis by (intro exI [of _ "Suc k"]) auto
    qed
    with le all True show ?thesis by auto
  next
    case False
    with Cons.prems have run: "dominationLoop ps (w, b) = (w', b')" by simp
    from Cons.IH [OF run] have le: "b \<le> b'"
      and all: "\<forall>q \<in> set ps. dominationTime q \<le> b'"
      and alt: "w' = w \<and> b' = b \<or>
         (\<exists>k < length ps. w' = Some (pid (ps ! k)) \<and> dominationTime (ps ! k) = b' \<and>
            b < b' \<and> (\<forall>j < k. dominationTime (ps ! j) < b'))"
      by blast+
    from alt have "w' = w \<and> b' = b \<or> (\<exists>k < length (p # ps). w' = Some (pid ((p # ps) ! k)) \<and>
        dominationTime ((p # ps) ! k) = b' \<and> b < b' \<and>
        (\<forall>j < k. dominationTime ((p # ps) ! j) < b'))"
    proof
      assume "w' = w \<and> b' = b"
      then show ?thesis by simp
    next
      assume "\<exists>k < length ps. w' = Some (pid (ps ! k)) \<and> dominationTime (ps ! k) = b' \<and>
            b < b' \<and> (\<forall>j < k. dominationTime (ps ! j) < b')"
      then obtain k where k: "k < length ps" "w' = Some (pid (ps ! k))"
        "dominationTime (ps ! k) = b'" "b < b'"
        "\<forall>j < k. dominationTime (ps ! j) < b'" by blast
      have "\<forall>j < Suc k. dominationTime ((p # ps) ! j) < b'"
        using k(4,5) False by (auto simp: nth_Cons split: nat.splits)
      with k have "\<exists>k < length (p # ps). w' = Some (pid ((p # ps) ! k)) \<and>
        dominationTime ((p # ps) ! k) = b' \<and> b < b' \<and>
        (\<forall>j < k. dominationTime ((p # ps) ! j) < b')"
        by (intro exI [of _ "Suc k"]) auto
      then show ?thesis ..
    qed
    with le all False show ?thesis by auto
  qed
qed

lemma checkRoundEnd_timeout_eq:
  assumes "\<not> roundEnded room" and "2 \<le> length (filter alive (players room))"
    and "ROUND_DURATION_MS \<le> elapsedMs room"
  shows "checkRoundEnd room =
    (room\<lparr>roundEnded := True\<rparr>,
     sendAll (players room) (RoundEnd (fst (dominationLoop (players room) (None, - 1))) Timeout))"
proof -
  have "length (filter alive (players room)) \<le> length (players room)" by simp
  with assms(2) have "\<not> length (players room) < 2" by linarith
  with assms show ?thesis by (simp add: checkRoundEnd_def Let_def)
qed

text \<open>
  Claim C1, as the specification states it: a room with fewer than two players ends by
  timeout once its elapsed time reaches the round duration. The source returns from
  \<^verbatim>\<open>checkRoundEnd\<close> at \<^verbatim>\<open>if (room.players.size < 2) return;\<close>, before the timeout
  test: in the one-player room below the elapsed time has reached the round duration,
  and the check neither ends the round nor sends a message.
\<close>

theorem solo_room_at_round_duration_not_ended:
  "length (players soloRoom) < 2 \<and> ROUND_DURATION_MS \<le> elapsedMs soloRoom \<and>
   \<not> roundEnded (fst (checkRoundEnd soloRoom)) \<and> snd (checkRoundEnd soloRoom) = []"
  by (simp add: soloRoom_def checkRoundEnd_def createRoom_def)

text \<open>
  Claim C1, amended: for a room with fewer than two players the round-end check changes
  nothing and sends nothing, whatever the elapsed time; such a room ends neither by
  lastAlive nor by timeout.
\<close>

theorem checkRoundEnd_fewer_than_two: "length (players room) < 2 \<Longrightarrow> checkRoundEnd room = (room, [])"
  by (simp add: checkRoundEnd_def)

theorem checkRoundEnd_fewer_than_two_witness: "length (players soloRoom) < 2 \<and> checkRoundEnd soloRoom = (soloRoom, [])"
  using checkRoundEnd_fewer_than_two [of soloRoom] by (simp add: soloRoom_def)



text \<open>
  Claim C4: in an active room with at least two players of whom at most one is alive, the
  round-end check sets \<open>roundEnded\<close> and sends to every open socket of the room one
  \<^verbatim>\<open>roundEnd\<close> message with reason \<^verbatim>\<open>lastAlive\<close>, whose \<^verbatim>\<open>winnerId\<close> is the id of the alive
  player, or \<^verbatim>\<open>null\<close> when no player is alive. The check is reached only from the active
  branch of \<^verbatim>\<open>updateRoom\<close>, where \<open>roundEnded\<close> is false.
\<close>

theorem checkRoundEnd_lastAlive_winner:
  assumes "\<not> roundEnded room" and "2 \<le> length (players room)"
    and "length (filter alive (players room)) \<le> 1"
  shows "\<exists>winnerId.
      checkRoundEnd room =
        (room\<lparr>roundEnded := True\<rparr>,
         map (\<lambda>p. (wsId (ws p), RoundEnd winnerId LastAlive))
             (filter (\<lambda>p. wsOpen (ws p)) (players room))) \<and>
      (\<forall>p \<in> set (players room). alive p \<longrightarrow> winnerId = Some (pid p)) \<and>
      ((\<forall>p \<in> set (players room). \<not> alive p) \<longrightarrow> winnerId = None)"
proof (cases "filter alive (players room)")
  case Nil
  then have dead: "\<forall>p \<in> set (players room). \<not> alive p"
    by (simp add: filter_empty_conv)
  have c: "checkRoundEnd room =
        (room\<lparr>roundEnded := True\<rparr>,
         map (\<lambda>p. (wsId (ws p), RoundEnd None LastAlive))
             (filter (\<lambda>p. wsOpen (ws p)) (players room)))"
    unfolding checkRoundEnd_lastAlive_eq [OF assms] Nil sendAll_eq by simp
  from dead c show ?thesis by blast
next
  case (Cons q qs)
  with assms(3) have qs: "qs = []" by simp
  have sole: "\<forall>p \<in> set (players room). alive p \<longrightarrow> p = q"
  proof (intro ballI impI)
    fix p assume "p \<in> set (players room)" "alive p"
    then have "p \<in> set (filter alive (players room))" by simp
    then show "p = q" unfolding Cons qs by simp
  qed
  have "q \<in> set (filter alive (players room))" unfolding Cons by simp
  then have q: "q \<in> set (players room)" "alive q" by simp_all
  have a: "\<forall>p \<in> set (players room). alive p \<longrightarrow> Some (pid q) = Some (pid p)"
    using sole by blast
  have b: "(\<forall>p \<in> set (players room). \<not> alive p) \<longrightarrow> Some (pid q) = None"
    using q by blast
  have c: "checkRoundEnd room =
        (room\<lparr>roundEnded := True\<rparr>,
         map (\<lambda>p. (wsId (ws p), RoundEnd (Some (pid q)) LastAlive))
             (filter (\<lambda>p. wsOpen (ws p)) (players room)))"
    unfolding checkRoundEnd_lastAlive_eq [OF assms] Cons sendAll_eq by simp
  from a b c show ?thesis by blast
qed

theorem checkRoundEnd_lastAlive_winner_witness:
  "\<not> roundEnded duelRoom \<and> 2 \<le> length (players duelRoom) \<and>
   length (filter alive (players duelRoom)) \<le> 1 \<and>
   checkRoundEnd duelRoom =
     (duelRoom\<lparr>roundEnded := True\<rparr>,
      [(1, RoundEnd (Some ''B'') LastAlive), (2, RoundEnd (Some ''B'') LastAlive)])"
proof -
  have h: "\<not> roundEnded duelRoom" "2 \<le> length (players duelRoom)"
    "length (filter alive (players duelRoom)) \<le> 1"
    by (simp_all add: duelRoom_def createRoom_def examplePlayer_def)
  from checkRoundEnd_lastAlive_winner [OF h] obtain w where
    eq: "checkRoundEnd duelRoom =
        (duelRoom\<lparr>roundEnded := True\<rparr>,
         map (\<lambda>p. (wsId (ws p), RoundEnd w LastAlive))
             (filter (\<lambda>p. wsOpen (ws p)) (players duelRoom)))"
    and sole: "\<forall>p \<in> set (players duelRoom). alive p \<longrightarrow> w = Some (pid p)"
    by blast
  have "examplePlayer ''B'' 2 620 400 \<in> set (players duelRoom)"
    by (simp add: duelRoom_def)
  moreover have "alive (examplePlayer ''B'' 2 620 400)" "pid (examplePlayer ''B'' 2 620 400) = ''B''"
    by (simp_all add: examplePlayer_def)
  ultimately have w: "w = Some ''B''" using sole by metis
  have "map (\<lambda>p. (wsId (ws p), RoundEnd w LastAlive))
             (filter (\<lambda>p. wsOpen (ws p)) (players duelRoom)) =
        [(1, RoundEnd (Some ''B'') LastAlive), (2, RoundEnd (Some ''B'') LastAlive)]"
    unfolding w by (simp add: duelRoom_def examplePlayer_def)
  with eq h show ?thesis by simp
qed

text \<open>
  Claim C5: in an active room with at least two alive players whose elapsed time has
  reached the round duration, the round-end check sets \<open>roundEnded\<close> and sends to every
  open socket one \<^verbatim>\<open>roundEnd\<close> message with reason \<^verbatim>\<open>timeout\<close>, whose \<^verbatim>\<open>winnerId\<close> is the
  id of the player at the first position \<open>k\<close> of the iteration order that holds the
  greatest domination time: no player has more, and every earlier player has strictly
  less. The loop starts from \<^verbatim>\<open>bestDomination = -1\<close>, so some accumulator has to exceed
  \<open>-1\<close>; the accumulators start at 0 and only grow by \<open>dt\<close>.
\<close>

theorem checkRoundEnd_timeout_winner:
  assumes "\<not> roundEnded room" and "2 \<le> length (filter alive (players room))"
    and "ROUND_DURATION_MS \<le> elapsedMs room"
    and "\<exists>p \<in> set (players room). - 1 < dominationTime p"
  shows "\<exists>k < length (players room).
      checkRoundEnd room =
        (room\<lparr>roundEnded := True\<rparr>,
         map (\<lambda>p. (wsId (ws p), RoundEnd (Some (pid (players room ! k))) Timeout))
             (filter (\<lambda>p. wsOpen (ws p)) (players room))) \<and>
      (\<forall>j < length (players room).
         dominationTime (players room ! j) \<le> dominationTime (players room ! k)) \<and>
      (\<forall>j < k. dominationTime (players room ! j) < dominationTime (players room ! k))"
proof -
  obtain w b where run: "dominationLoop (players room) (None, - 1) = (w, b)"
    by (cases "dominationLoop (players room) (None, - 1)")
  note res = dominationLoop_result [OF run]
  from res have all: "\<forall>p \<in> set (players room). dominationTime p \<le> b" by blast
  from assms(4) all have "- 1 < b" by force
  with res obtain k where k: "k < length (players room)" "w = Some (pid (players room ! k))"
    "dominationTime (players room ! k) = b"
    "\<forall>j < k. dominationTime (players room ! j) < b" by force
  have c: "checkRoundEnd room =
        (room\<lparr>roundEnded := True\<rparr>,
         map (\<lambda>p. (wsId (ws p), RoundEnd (Some (pid (players room ! k))) Timeout))
             (filter (\<lambda>p. wsOpen (ws p)) (players room)))"
    unfolding checkRoundEnd_timeout_eq [OF assms(1-3)] run sendAll_eq using k(2) by simp
  have "\<forall>j < length (players room). dominationTime (players room ! j) \<le> b"
    using all by simp
  with c k show ?thesis by blast
qed


theorem checkRoundEnd_timeout_winner_witness:
  "\<not> roundEnded trioRoom \<and> 2 \<le> length (filter alive (players trioRoom)) \<and>
   ROUND_DURATION_MS \<le> elapsedMs trioRoom \<and>
   map dominationTime (players trioRoom) = [5.0, 3.2, 5.0] \<and>
   map pid (players trioRoom) = [''A'', ''B'', ''C''] \<and>
   checkRoundEnd trioRoom =
     (trioRoom\<lparr>roundEnded := True\<rparr>,
      [(1, RoundEnd (Some ''A'') Timeout), (2, RoundEnd (Some ''A'') Timeout),
       (3, RoundEnd (Some ''A'') Timeout)])"
proof -
  have h: "\<not> roundEnded trioRoom" "2 \<le> length (filter alive (players trioRoom))"
    "ROUND_DURATION_MS \<le> elapsedMs trioRoom"
    by (simp_all add: trioRoom_def createRoom_def examplePlayer_def)
  have doms: "map dominationTime (players trioRoom) = [5.0, 3.2, 5.0]"
    and ids: "map pid (players trioRoom) = [''A'', ''B'', ''C'']"
    by (simp_all add: trioRoom_def examplePlayer_def)
  have ex: "\<exists>p \<in> set (players trioRoom). - 1 < dominationTime p"
    by (simp add: trioRoom_def examplePlayer_def)
  have len: "length (players trioRoom) = 3" by (simp add: trioRoom_def)
  have d: "dominationTime (players trioRoom ! 0) = 5" "dominationTime (players trioRoom ! 1) = 3.2"
    "dominationTime (players trioRoom ! 2) = 5"
    by (simp_all add: trioRoom_def examplePlayer_def)
  from checkRoundEnd_timeout_winner [OF h ex] obtain k where k: "k < length (players trioRoom)"
    and eq: "checkRoundEnd trioRoom =
        (trioRoom\<lparr>roundEnded := True\<rparr>,
         map (\<lambda>p. (wsId (ws p), RoundEnd (Some (pid (players trioRoom ! k))) Timeout))
             (filter (\<lambda>p. wsOpen (ws p)) (players trioRoom)))"
    and mx: "\<forall>j < length (players trioRoom).
         dominationTime (players trioRoom ! j) \<le> dominationTime (players trioRoom ! k)"
    and first: "\<forall>j < k. dominationTime (players trioRoom ! j) < dominationTime (players trioRoom ! k)"
    by blast
  from k len have "k = 0 \<or> k = 1 \<or> k = 2" by linarith
  then have k0: "k = 0"
  proof (elim disjE)
    assume "k = 1"
    with mx len have "dominationTime (players trioRoom ! 0) \<le> dominationTime (players trioRoom ! 1)"
      by simp
    with d show ?thesis by simp
  next
    assume "k = 2"
    with first have "dominationTime (players trioRoom ! 0) < dominationTime (players trioRoom ! 2)"
      by simp
    with d show ?thesis by simp
  qed simp
  have "pid (players trioRoom ! 0) = ''A''" by (simp add: trioRoom_def examplePlayer_def)
  then have "map (\<lambda>p. (wsId (ws p), RoundEnd (Some (pid (players trioRoom ! k))) Timeout))
             (filter (\<lambda>p. wsOpen (ws p)) (players trioRoom)) =
     [(1, RoundEnd (Some ''A'') Timeout), (2, RoundEnd (Some ''A'') Timeout),
       (3, RoundEnd (Some ''A'') Timeout)]"
    unfolding k0 by (simp add: trioRoom_def examplePlayer_def)
  with eq h doms ids show ?thesis by simp
qed


section \<open>Round reset\<close>

text \<open>A room whose round has ended: two players, the first of them dead, at tick 7.\<close>

definition endedRoom :: Room where
  "endedRoom = duelRoom\<lparr>tick := 7, elapsedMs := 5000, nextShiftMs := 30000, roundEnded := True\<rparr>"

text \<open>
  Claim C10: a round reset sets every player's hp to 100, alive to true, domination time
  to 0 and velocity to zero, and leaves the player's position, last direction, dash
  cooldown, stored input, id, nickname and socket as they were; it keeps the room's tick
  counter, code and list of players, and re-initialises the elapsed time, the four event
  deadlines, the round-ended flag and the circle.
\<close>

theorem resetRoomRound_frame:
  "tick (resetRoomRound room) = tick room \<and>
   code (resetRoomRound room) = code room \<and>
   length (players (resetRoomRound room)) = length (players room) \<and>
   (\<forall>k < length (players room).
      hp (players (resetRoomRound room) ! k) = 100 \<and>
      alive (players (resetRoomRound room) ! k) \<and>
      dominationTime (players (resetRoomRound room) ! k) = 0 \<and>
      pvx (players (resetRoomRound room) ! k) = 0 \<and>
      pvy (players (resetRoomRound room) ! k) = 0 \<and>
      px (players (resetRoomRound room) ! k) = px (players room ! k) \<and>
      py (players (resetRoomRound room) ! k) = py (players room ! k) \<and>
      lastDir (players (resetRoomRound room) ! k) = lastDir (players room ! k) \<and>
      dashCooldown (players (resetRoomRound room) ! k) = dashCooldown (players room ! k) \<and>
      input (players (resetRoomRound room) ! k) = input (players room ! k) \<and>
      pid (players (resetRoomRound room) ! k) = pid (players room ! k) \<and>
      nickname (players (resetRoomRound room) ! k) = nickname (players room ! k) \<and>
      ws (players (resetRoomRound room) ! k) = ws (players room ! k)) \<and>
   elapsedMs (resetRoomRound room) = 0 \<and>
   nextShiftMs (resetRoomRound room) = SHIFT_INTERVAL_MS \<and>
   nextPulseMs (resetRoomRound room) = PULSE_INTERVAL_MS \<and>
   nextResizeMs (resetRoomRound room) = RESIZE_INTERVAL_MS \<and>
   nextAccelMs (resetRoomRound room) = ACCEL_INTERVAL_MS \<and>
   \<not> roundEnded (resetRoomRound room) \<and>
   circle (resetRoomRound room) = initialCircle"
  by (simp add: resetRoomRound_def resetPlayer_def)

theorem resetRoomRound_frame_witness:
  "tick (resetRoomRound endedRoom) = 7 \<and>
   hp (players endedRoom ! 0) = 0 \<and> \<not> alive (players endedRoom ! 0) \<and>
   hp (players (resetRoomRound endedRoom) ! 0) = 100 \<and>
   alive (players (resetRoomRound endedRoom) ! 0) \<and>
   px (players (resetRoomRound endedRoom) ! 0) = 600 \<and>
   py (players (resetRoomRound endedRoom) ! 0) = 400 \<and>
   pid (players (resetRoomRound endedRoom) ! 0) = ''A'' \<and>
   elapsedMs (resetRoomRound endedRoom) = 0 \<and>
   \<not> roundEnded (resetRoomRound endedRoom)"
proof -
  have len: "0 < length (players endedRoom)"
    by (simp add: endedRoom_def duelRoom_def)
  have old: "tick endedRoom = 7" "hp (players endedRoom ! 0) = 0" "\<not> alive (players endedRoom ! 0)"
    "px (players endedRoom ! 0) = 600" "py (players endedRoom ! 0) = 400"
    "pid (players endedRoom ! 0) = ''A''"
    by (simp_all add: endedRoom_def duelRoom_def examplePlayer_def)
  from resetRoomRound_frame [of endedRoom] len old show ?thesis by simp
qed

section \<open>The two circle snapshots of a tick\<close>

text \<open>
  Claim C7: in a tick of an active room, \<^verbatim>\<open>updateRoom\<close> computes the first snapshot from
  the circle of the room that enters the movement phase, and the second from the
  circle of the room that leaves the collision phase. Movement and collision resolution
  leave the circle state, the pulse phase included, as it was, so the two snapshots agree
  in all four fields.
\<close>

theorem tick_snapshots_agree:
  "circle (collidePhase (movePhase room dt)) = circle room \<and>
   snapX (getCircleSnapshot (circle (collidePhase (movePhase room dt)))) =
     snapX (getCircleSnapshot (circle room)) \<and>
   snapY (getCircleSnapshot (circle (collidePhase (movePhase room dt)))) =
     snapY (getCircleSnapshot (circle room)) \<and>
   radius (getCircleSnapshot (circle (collidePhase (movePhase room dt)))) =
     radius (getCircleSnapshot (circle room)) \<and>
   innerRadius (getCircleSnapshot (circle (collidePhase (movePhase room dt)))) =
     innerRadius (getCircleSnapshot (circle room))"
  by (simp add: collidePhase_def movePhase_def)


theorem tick_snapshots_agree_witness:
  "circle (collidePhase (movePhase trioRoom (1 / 30))) = circle trioRoom \<and>
   snapX (getCircleSnapshot (circle (collidePhase (movePhase trioRoom (1 / 30))))) =
     snapX (getCircleSnapshot (circle trioRoom)) \<and>
   snapY (getCircleSnapshot (circle (collidePhase (movePhase trioRoom (1 / 30))))) =
     snapY (getCircleSnapshot (circle trioRoom)) \<and>
   radius (getCircleSnapshot (circle (collidePhase (movePhase trioRoom (1 / 30))))) =
     radius (getCircleSnapshot (circle trioRoom)) \<and>
   innerRadius (getCircleSnapshot (circle (collidePhase (movePhase trioRoom (1 / 30))))) =
     innerRadius (getCircleSnapshot (circle trioRoom))"
  by (rule tick_snapshots_agree)

section \<open>The radius of the safe circle\<close>

text \<open>
  The operations that touch the circle, as \<^verbatim>\<open>updateRoom\<close> issues them: the advance of
  a tick and the four triggers. A sequence of them is run from left to right.
\<close>

datatype CircleOp =
    Advance real Randoms
  | TriggerShift Randoms
  | TriggerPulse
  | TriggerResize Randoms
  | TriggerAccel

fun applyCircleOp :: "Room \<Rightarrow> CircleOp \<Rightarrow> Room" where
  "applyCircleOp room (Advance dt rnd) = updateCircle room dt rnd"
| "applyCircleOp room (TriggerShift rnd) = fst (triggerShift room rnd)"
| "applyCircleOp room TriggerPulse = fst (triggerPulse room)"
| "applyCircleOp room (TriggerResize rnd) = fst (triggerResize room rnd)"
| "applyCircleOp room TriggerAccel = fst (triggerAccel room)"

text \<open>
  An advance has a time step that is not negative, and the number drawn for a resize is a
  result of \<^verbatim>\<open>Math.random\<close>.
\<close>

fun validOp :: "CircleOp \<Rightarrow> bool" where
  "validOp (Advance dt rnd) = (0 \<le> dt)"
| "validOp (TriggerResize rnd) = unitRandom (rndResize rnd)"
| "validOp _ = True"

definition radiusInv :: "CircleState \<Rightarrow> bool" where
  "radiusInv c = (minRadius c \<le> baseRadius c \<and> baseRadius c \<le> maxRadius c \<and> 0 \<le> shrinkRate c)"

definition halfRandoms :: Randoms where
  "halfRandoms = \<lparr>rndAngle = 1 / 2, rndTimer = 1 / 2, rndShiftX = 1 / 2, rndShiftY = 1 / 2,
                   rndResize = 1 / 2\<rparr>"

definition exampleOps :: "CircleOp list" where
  "exampleOps = [Advance (1 / 30) halfRandoms, TriggerResize halfRandoms, TriggerAccel,
                 TriggerShift halfRandoms, TriggerPulse, Advance (1 / 30) halfRandoms]"

lemma driftStep_radius [simp]:
  "baseRadius (driftStep c dt a t) = baseRadius c" "minRadius (driftStep c dt a t) = minRadius c"
  "maxRadius (driftStep c dt a t) = maxRadius c" "shrinkRate (driftStep c dt a t) = shrinkRate c"
  by (simp_all add: driftStep_def Let_def)

lemma bounceStep_radius [simp]:
  "baseRadius (bounceStep c) = baseRadius c" "minRadius (bounceStep c) = minRadius c"
  "maxRadius (bounceStep c) = maxRadius c" "shrinkRate (bounceStep c) = shrinkRate c"
  by (simp_all add: bounceStep_def Let_def)

lemma shiftStep_radius [simp]:
  "baseRadius (shiftStep c dt) = baseRadius c" "minRadius (shiftStep c dt) = minRadius c"
  "maxRadius (shiftStep c dt) = maxRadius c" "shrinkRate (shiftStep c dt) = shrinkRate c"
  by (simp_all add: shiftStep_def Let_def)

lemma pulseStep_radius [simp]:
  "baseRadius (pulseStep c dt) = baseRadius c" "minRadius (pulseStep c dt) = minRadius c"
  "maxRadius (pulseStep c dt) = maxRadius c" "shrinkRate (pulseStep c dt) = shrinkRate c"
  by (simp_all add: pulseStep_def Let_def)

lemma advanceCircle_radius:
  "baseRadius (advanceCircle c dt a t) = max (minRadius c) (baseRadius c - shrinkRate c * dt)"
  "minRadius (advanceCircle c dt a t) = minRadius c"
  "maxRadius (advanceCircle c dt a t) = maxRadius c"
  "shrinkRate (advanceCircle c dt a t) = shrinkRate c"
  by (simp_all add: advanceCircle_def shrinkStep_def)

lemma resize_in_range:
  fixes lo hi u :: real
  assumes "lo \<le> hi" "0 \<le> u" "u < 1"
  shows "lo \<le> lo + u * (hi - lo)" "lo + u * (hi - lo) \<le> hi"
proof -
  from assms show "lo \<le> lo + u * (hi - lo)" by simp
  have "u * (hi - lo) \<le> 1 * (hi - lo)"
    using assms by (intro mult_right_mono) simp_all
  then show "lo + u * (hi - lo) \<le> hi" by simp
qed

lemma applyCircleOp_inv:
  assumes "radiusInv (circle room)" "validOp op"
  shows "radiusInv (circle (applyCircleOp room op)) \<and>
         minRadius (circle (applyCircleOp room op)) = minRadius (circle room) \<and>
         maxRadius (circle (applyCircleOp room op)) = maxRadius (circle room)"
proof (cases op)
  case (Advance dt rnd)
  with assms have nn: "0 \<le> shrinkRate (circle room) * dt" by (simp add: radiusInv_def)
  from assms(1) have r: "minRadius (circle room) \<le> baseRadius (circle room)"
    "baseRadius (circle room) \<le> maxRadius (circle room)" "0 \<le> shrinkRate (circle room)"
    by (simp_all add: radiusInv_def)
  have "max (minRadius (circle room)) (baseRadius (circle room) - shrinkRate (circle room) * dt)
          \<le> maxRadius (circle room)"
    using nn r by linarith
  with r Advance show ?thesis
    by (simp add: updateCircle_def advanceCircle_radius radiusInv_def)
next
  case (TriggerShift rnd)
  with assms show ?thesis by (simp add: triggerShift_def Let_def radiusInv_def)
next
  case TriggerPulse
  with assms show ?thesis by (simp add: triggerPulse_def radiusInv_def)
next
  case (TriggerResize rnd)
  with assms resize_in_range [of "minRadius (circle room)" "maxRadius (circle room)" "rndResize rnd"]
  show ?thesis by (simp add: triggerResize_def Let_def radiusInv_def unitRandom_def)
next
  case TriggerAccel
  with assms show ?thesis by (simp add: triggerAccel_def Let_def radiusInv_def)
qed

lemma foldl_applyCircleOp_inv:
  "radiusInv (circle room) \<Longrightarrow> \<forall>op \<in> set ops. validOp op \<Longrightarrow>
   radiusInv (circle (foldl applyCircleOp room ops)) \<and>
   minRadius (circle (foldl applyCircleOp room ops)) = minRadius (circle room) \<and>
   maxRadius (circle (foldl applyCircleOp room ops)) = maxRadius (circle room)"
proof (induction ops arbitrary: room)
  case Nil
  then show ?case by simp
next
  case (Cons op ops)
  from Cons.prems have step: "radiusInv (circle (applyCircleOp room op))"
    "minRadius (circle (applyCircleOp room op)) = minRadius (circle room)"
    "maxRadius (circle (applyCircleOp room op)) = maxRadius (circle room)"
    using applyCircleOp_inv [of room op] by simp_all
  from Cons.IH [OF step(1)] Cons.prems(2) step(2,3) show ?case by simp
qed

text \<open>
  Claim C8: from a circle whose base radius lies between its bounds and whose shrink rate
  is not negative (the circle of \<^verbatim>\<open>createRoom\<close> and \<^verbatim>\<open>resetRoomRound\<close> is one), every
  sequence of advances and triggers leaves the base radius within \<open>[minRadius,
  maxRadius]\<close> and the two bounds as they were. The advance floors the base radius at
  \<open>minRadius\<close> and does not raise it; a resize sets it to a value within the bounds.
\<close>

theorem baseRadius_within_bounds:
  assumes "radiusInv (circle room)" and "\<forall>op \<in> set ops. validOp op"
    and "0 \<le> dt" and "unitRandom (rndResize rnd)"
  shows "minRadius (circle room) \<le> baseRadius (circle (foldl applyCircleOp room ops)) \<and>
         baseRadius (circle (foldl applyCircleOp room ops)) \<le> maxRadius (circle room) \<and>
         minRadius (circle (foldl applyCircleOp room ops)) = minRadius (circle room) \<and>
         maxRadius (circle (foldl applyCircleOp room ops)) = maxRadius (circle room) \<and>
         minRadius (circle room) \<le> baseRadius (circle (updateCircle room dt rnd)) \<and>
         baseRadius (circle (updateCircle room dt rnd)) \<le> baseRadius (circle room) \<and>
         minRadius (circle room) \<le> baseRadius (circle (fst (triggerResize room rnd))) \<and>
         baseRadius (circle (fst (triggerResize room rnd))) \<le> maxRadius (circle room)"
proof -
  from foldl_applyCircleOp_inv [OF assms(1,2)]
  have a: "minRadius (circle room) \<le> baseRadius (circle (foldl applyCircleOp room ops))"
    "baseRadius (circle (foldl applyCircleOp room ops)) \<le> maxRadius (circle room)"
    "minRadius (circle (foldl applyCircleOp room ops)) = minRadius (circle room)"
    "maxRadius (circle (foldl applyCircleOp room ops)) = maxRadius (circle room)"
    by (simp_all add: radiusInv_def)
  from assms(1,3) have nn: "0 \<le> shrinkRate (circle room) * dt" by (simp add: radiusInv_def)
  from assms(1) have r: "minRadius (circle room) \<le> baseRadius (circle room)"
    by (simp add: radiusInv_def)
  have eq: "baseRadius (circle (updateCircle room dt rnd)) =
      max (minRadius (circle room)) (baseRadius (circle room) - shrinkRate (circle room) * dt)"
    by (simp add: updateCircle_def advanceCircle_radius)
  have b: "minRadius (circle room) \<le> baseRadius (circle (updateCircle room dt rnd))"
    "baseRadius (circle (updateCircle room dt rnd)) \<le> baseRadius (circle room)"
    unfolding eq using nn r by linarith+
  from assms(1,4)
    resize_in_range [of "minRadius (circle room)" "maxRadius (circle room)" "rndResize rnd"]
  have c: "minRadius (circle room) \<le> baseRadius (circle (fst (triggerResize room rnd)))"
    "baseRadius (circle (fst (triggerResize room rnd))) \<le> maxRadius (circle room)"
    by (simp_all add: triggerResize_def Let_def radiusInv_def unitRandom_def)
  from a b c show ?thesis by blast
qed


theorem baseRadius_within_bounds_witness:
  "radiusInv (circle (createRoom ''X'')) \<and> list_all validOp exampleOps \<and>
   140 \<le> baseRadius (circle (foldl applyCircleOp (createRoom ''X'') exampleOps)) \<and>
   baseRadius (circle (foldl applyCircleOp (createRoom ''X'') exampleOps)) \<le> 420 \<and>
   baseRadius (circle (updateCircle (createRoom ''X'') (1 / 30) halfRandoms))
     \<le> baseRadius (circle (createRoom ''X'')) \<and>
   140 \<le> baseRadius (circle (fst (triggerResize (createRoom ''X'') halfRandoms))) \<and>
   baseRadius (circle (fst (triggerResize (createRoom ''X'') halfRandoms))) \<le> 420"
proof -
  have inv: "radiusInv (circle (createRoom ''X''))"
    by (simp add: radiusInv_def createRoom_def initialCircle_def)
  have ops: "\<forall>op \<in> set exampleOps. validOp op" and ops': "list_all validOp exampleOps"
    by (simp_all add: exampleOps_def halfRandoms_def unitRandom_def)
  have dt: "(0::real) \<le> 1 / 30" by simp
  have u: "unitRandom (rndResize halfRandoms)"
    by (simp add: halfRandoms_def unitRandom_def)
  have bounds: "minRadius (circle (createRoom ''X'')) = 140"
    "maxRadius (circle (createRoom ''X'')) = 420"
    by (simp_all add: createRoom_def initialCircle_def)
  from baseRadius_within_bounds [OF inv ops dt u] inv ops' show ?thesis
    unfolding bounds by blast
qed

section \<open>Protocol errors of a connection\<close>

text \<open>
  A server with no room, the closure of a fresh connection, an open socket, and what a
  join may draw.
\<close>

definition emptyServer :: Server where
  "emptyServer = \<lparr>store = Map.empty, rooms = Map.empty, nextRef = 0\<rparr>"

definition newSession :: Session where
  "newSession = \<lparr>currentRoom = None, playerId = None\<rparr>"

definition exampleSocket :: WebSocket where
  "exampleSocket = \<lparr>wsId = 5, wsOpen = True\<rparr>"

definition exampleJoin :: JoinRandoms where
  "exampleJoin = \<lparr>newId = ''k3x9q2a'', rndX = 1 / 2, rndY = 1 / 4\<rparr>"

definition noInput :: PlayerInput where
  "noInput = \<lparr>up = False, down = False, left = False, right = False, dash = False\<rparr>"

lemma onJoin_session:
  "currentRoom (fst (snd (onJoin srv w jr rawCode rawNick))) \<noteq> None"
  "playerId (fst (snd (onJoin srv w jr rawCode rawNick))) = Some (newId jr)"
  by (simp_all add: onJoin_def Let_def split_def)

text \<open>
  Claim C9: on an open connection, a join that arrives when the connection has joined
  (\<^verbatim>\<open>currentRoom\<close> is set) and an input that arrives when it has not (\<^verbatim>\<open>currentRoom\<close> is
  \<^verbatim>\<open>null\<close>) each send exactly one \<^verbatim>\<open>error\<close> message to that connection, and leave the
  store of rooms with their players, the registry and the connection's own variables as
  they were. On a socket that is not open \<^verbatim>\<open>safeSend\<close> drops the message.
\<close>

theorem protocol_error_no_mutation:
  assumes "wsOpen w"
  shows "(currentRoom ses \<noteq> None \<longrightarrow>
            onMessage srv ses w jr (Message (Join rawCode rawNick)) =
              (srv, ses, [(wsId w, Error ''Already joined.'')])) \<and>
         (currentRoom ses = None \<longrightarrow>
            onMessage srv ses w jr (Message (Input sq inp)) =
              (srv, ses, [(wsId w, Error ''Join a room first.'')]))"
  using assms by (simp add: onMessage_def safeSend_def)

theorem protocol_error_no_mutation_witness:
  "wsOpen exampleSocket \<and>
   onMessage emptyServer newSession exampleSocket exampleJoin (Message (Input 1 noInput)) =
     (emptyServer, newSession, [(5, Error ''Join a room first.'')]) \<and>
   (case onMessage emptyServer newSession exampleSocket exampleJoin (Message (Join ''abc'' ''Ann''))
    of (srv1, ses1, out1) \<Rightarrow>
      onMessage srv1 ses1 exampleSocket exampleJoin (Message (Join ''abc'' ''Ann'')) =
        (srv1, ses1, [(5, Error ''Already joined.'')]))"
proof -
  have op: "wsOpen exampleSocket" and wid: "wsId exampleSocket = 5"
    by (simp_all add: exampleSocket_def)
  have new: "currentRoom newSession = None" by (simp add: newSession_def)
  obtain srv1 ses1 out1 where
    j: "onMessage emptyServer newSession exampleSocket exampleJoin (Message (Join ''abc'' ''Ann''))
        = (srv1, ses1, out1)"
    by (metis prod_cases3)
  have "onMessage emptyServer newSession exampleSocket exampleJoin (Message (Join ''abc'' ''Ann''))
        = onJoin emptyServer exampleSocket exampleJoin ''abc'' ''Ann''"
    using new by (simp add: onMessage_def)
  with j onJoin_session(1) [of emptyServer exampleSocket exampleJoin "''abc''" "''Ann''"]
  have joined: "currentRoom ses1 \<noteq> None" by simp
  from protocol_error_no_mutation [OF op, of newSession emptyServer exampleJoin "''abc''" "''Ann''" 1 noInput] new wid
  have a: "onMessage emptyServer newSession exampleSocket exampleJoin (Message (Input 1 noInput)) =
     (emptyServer, newSession, [(5, Error ''Join a room first.'')])" by simp
  from protocol_error_no_mutation [OF op, of ses1 srv1 exampleJoin "''abc''" "''Ann''" 1 noInput] joined wid
  have b: "onMessage srv1 ses1 exampleSocket exampleJoin (Message (Join ''abc'' ''Ann'')) =
        (srv1, ses1, [(5, Error ''Already joined.'')])" by simp
  from op a b show ?thesis unfolding j by simp
qed


section \<open>Collision resolution\<close>

text \<open>
  The distance of two players' centres, as \<^verbatim>\<open>resolveCollisions\<close> computes it from
  \<^verbatim>\<open>dx\<close> and \<^verbatim>\<open>dy\<close>.
\<close>

definition centerDistance :: "Player \<Rightarrow> Player \<Rightarrow> real" where
  "centerDistance a b = hypot (px b - px a) (py b - py a)"

text \<open>Three alive players on a line: A at 100, B at 130 and C at 80.\<close>

definition crowd :: "Player list" where
  "crowd = [examplePlayer ''A'' 1 100 100, examplePlayer ''B'' 2 130 100,
            examplePlayer ''C'' 3 80 100]"

text \<open>Two alive players 30 apart, and a dead one between them in the list.\<close>

definition pairWithDead :: "Player list" where
  "pairWithDead = [examplePlayer ''A'' 1 100 100,
                   (examplePlayer ''D'' 4 110 100)\<lparr>alive := False, hp := 0\<rparr>,
                   examplePlayer ''B'' 2 130 100]"

lemma examplePlayer_fields [simp]:
  "px (examplePlayer k n x0 y0) = x0" "py (examplePlayer k n x0 y0) = y0"
  "alive (examplePlayer k n x0 y0)" "pvx (examplePlayer k n x0 y0) = 0"
  "pvy (examplePlayer k n x0 y0) = 0" "hp (examplePlayer k n x0 y0) = 100"
  by (simp_all add: examplePlayer_def)

lemma hypot_zero_right [simp]: "hypot x 0 = \<bar>x\<bar>"
  by (simp add: hypot_def)

lemma hypot_zero_left [simp]: "hypot 0 y = \<bar>y\<bar>"
  by (simp add: hypot_def)

lemma hypot_scale: "hypot (k * x) (k * y) = \<bar>k\<bar> * hypot x y"
proof -
  have "(k * x) * (k * x) + (k * y) * (k * y) = (k * k) * (x * x + y * y)"
    by (simp add: algebra_simps)
  then show ?thesis
    by (simp add: hypot_def real_sqrt_mult)
qed

lemma collide_alive [simp]:
  "alive (fst (collide a b)) = alive a" "alive (snd (collide a b)) = alive b"
  by (simp_all add: collide_def Let_def)

lemma collide_separates:
  assumes "0 < centerDistance a b" and "centerDistance a b < 2 * PLAYER_RADIUS"
  shows "centerDistance (fst (collide a b)) (snd (collide a b)) = 2 * PLAYER_RADIUS"
proof -
  define dx where "dx = px b - px a"
  define dy where "dy = py b - py a"
  define d where "d = hypot dx dy"
  from assms have d: "0 < d" "d < 2 * PLAYER_RADIUS"
    by (simp_all add: centerDistance_def d_def dx_def dy_def)
  have hit: "\<not> (d = 0 \<or> d \<ge> PLAYER_RADIUS * 2)" using d by simp
  have fx: "px (fst (collide a b)) = px a - dx / d * (PLAYER_RADIUS * 2 - d) * 0.5"
    and sx: "px (snd (collide a b)) = px b + dx / d * (PLAYER_RADIUS * 2 - d) * 0.5"
    and fy: "py (fst (collide a b)) = py a - dy / d * (PLAYER_RADIUS * 2 - d) * 0.5"
    and sy: "py (snd (collide a b)) = py b + dy / d * (PLAYER_RADIUS * 2 - d) * 0.5"
    using hit unfolding collide_def Let_def dx_def [symmetric] dy_def [symmetric] d_def [symmetric]
    by simp_all
  have "px (snd (collide a b)) - px (fst (collide a b)) = dx + dx / d * (PLAYER_RADIUS * 2 - d)"
    unfolding fx sx by (simp add: dx_def)
  also have "\<dots> = (2 * PLAYER_RADIUS / d) * dx"
    using d(1) by (simp add: field_simps)
  finally have x: "px (snd (collide a b)) - px (fst (collide a b)) = (2 * PLAYER_RADIUS / d) * dx" .
  have "py (snd (collide a b)) - py (fst (collide a b)) = dy + dy / d * (PLAYER_RADIUS * 2 - d)"
    unfolding fy sy by (simp add: dy_def)
  also have "\<dots> = (2 * PLAYER_RADIUS / d) * dy"
    using d(1) by (simp add: field_simps)
  finally have y: "py (snd (collide a b)) - py (fst (collide a b)) = (2 * PLAYER_RADIUS / d) * dy" .
  have "centerDistance (fst (collide a b)) (snd (collide a b)) = \<bar>2 * PLAYER_RADIUS / d\<bar> * d"
    unfolding centerDistance_def x y hypot_scale by (simp only: d_def)
  also have "\<dots> = 2 * PLAYER_RADIUS"
    using d by (simp add: PLAYER_RADIUS_def)
  finally show ?thesis .
qed


lemma innerLoop_dead: "\<forall>b \<in> set bs. \<not> alive b \<Longrightarrow> innerLoop a bs = (a, bs)"
  by (induction bs) simp_all

lemma resolveCollisions_dead: "\<forall>p \<in> set ps. \<not> alive p \<Longrightarrow> resolveCollisions ps = ps"
  by (induction ps) simp_all

lemma innerLoop_one_alive:
  assumes "\<forall>p \<in> set mid. \<not> alive p" and "alive b" and "\<forall>p \<in> set post. \<not> alive p"
  shows "innerLoop a (mid @ b # post) = (fst (collide a b), mid @ snd (collide a b) # post)"
  using assms(1)
proof (induction mid)
  case Nil
  with assms(2,3) show ?case
    by (simp add: innerLoop_dead split: prod.splits)
next
  case (Cons m mid)
  then show ?case by simp
qed

lemma resolveCollisions_one_alive:
  assumes "\<forall>p \<in> set mid. \<not> alive p" and "alive b" and "\<forall>p \<in> set post. \<not> alive p"
  shows "resolveCollisions (mid @ b # post) = mid @ b # post"
  using assms(1)
proof (induction mid)
  case Nil
  with assms(2,3) show ?case
    by (simp add: innerLoop_dead resolveCollisions_dead)
next
  case (Cons m mid)
  then show ?case by simp
qed

lemma resolveCollisions_two_alive:
  assumes "\<forall>p \<in> set pre. \<not> alive p" and "alive a" and "\<forall>p \<in> set mid. \<not> alive p"
    and "alive b" and "\<forall>p \<in> set post. \<not> alive p"
  shows "resolveCollisions (pre @ a # mid @ b # post) =
           pre @ fst (collide a b) # mid @ snd (collide a b) # post"
  using assms(1)
proof (induction pre)
  case Nil
  have "alive (snd (collide a b))" using assms(4) by simp
  from resolveCollisions_one_alive [OF assms(3) this assms(5)] assms(2)
  show ?case
    by (simp add: innerLoop_one_alive [OF assms(3,4,5)])
next
  case (Cons m pre)
  then show ?case by simp
qed

lemma collide_position:
  "px (fst (collide a b)) =
     (if centerDistance a b = 0 \<or> centerDistance a b \<ge> 2 * PLAYER_RADIUS then px a
      else px a - (px b - px a) / centerDistance a b * (2 * PLAYER_RADIUS - centerDistance a b) / 2)"
  "py (fst (collide a b)) =
     (if centerDistance a b = 0 \<or> centerDistance a b \<ge> 2 * PLAYER_RADIUS then py a
      else py a - (py b - py a) / centerDistance a b * (2 * PLAYER_RADIUS - centerDistance a b) / 2)"
  "px (snd (collide a b)) =
     (if centerDistance a b = 0 \<or> centerDistance a b \<ge> 2 * PLAYER_RADIUS then px b
      else px b + (px b - px a) / centerDistance a b * (2 * PLAYER_RADIUS - centerDistance a b) / 2)"
  "py (snd (collide a b)) =
     (if centerDistance a b = 0 \<or> centerDistance a b \<ge> 2 * PLAYER_RADIUS then py b
      else py b + (py b - py a) / centerDistance a b * (2 * PLAYER_RADIUS - centerDistance a b) / 2)"
  by (simp_all add: collide_def Let_def centerDistance_def mult.commute)

lemma resolveCollisions_three:
  assumes "alive a" "alive b" "alive c"
  shows "resolveCollisions [a, b, c] =
    [fst (collide (fst (collide a b)) c),
     fst (collide (snd (collide a b)) (snd (collide (fst (collide a b)) c))),
     snd (collide (snd (collide a b)) (snd (collide (fst (collide a b)) c)))]"
  using assms by (simp add: split_def)


text \<open>
  Claim C3, as the specification states it: every pair of alive players closer than
  \<open>2 * PLAYER_RADIUS\<close> is at least as far apart after one pass, also when a third player
  takes part. With A, B and C on a line, the pass first pushes A and B apart (to 97 and
  133), then pushes A away from C (to 106.5), towards B: A and B start 30 apart and end
  26.5 apart.
\<close>

theorem third_player_closes_pair:
  "alive (crowd ! 0) \<and> alive (crowd ! 1) \<and> alive (crowd ! 2) \<and>
   centerDistance (crowd ! 0) (crowd ! 1) = 30 \<and> 30 < 2 * PLAYER_RADIUS \<and>
   centerDistance (resolveCollisions crowd ! 0) (resolveCollisions crowd ! 1) = 26.5"
proof -
  define A where "A = examplePlayer ''A'' 1 100 100"
  define B where "B = examplePlayer ''B'' 2 130 100"
  define C where "C = examplePlayer ''C'' 3 80 100"
  define A1 where "A1 = fst (collide A B)"
  define B1 where "B1 = snd (collide A B)"
  define A2 where "A2 = fst (collide A1 C)"
  define C1 where "C1 = snd (collide A1 C)"
  define B2 where "B2 = fst (collide B1 C1)"
  have crowd: "crowd = [A, B, C]" by (simp add: crowd_def A_def B_def C_def)
  have al: "alive A" "alive B" "alive C" by (simp_all add: A_def B_def C_def)
  have dAB: "centerDistance A B = 30"
    by (simp add: centerDistance_def A_def B_def)
  have pA1: "px A1 = 97" "py A1 = 100" and pB1: "px B1 = 133" "py B1 = 100"
    unfolding A1_def B1_def collide_position dAB
    by (simp_all add: A_def B_def PLAYER_RADIUS_def)
  have dA1C: "centerDistance A1 C = 17"
    unfolding centerDistance_def pA1 by (simp add: C_def)
  have pA2: "px A2 = 106.5" "py A2 = 100" and pC1: "px C1 = 70.5" "py C1 = 100"
    unfolding A2_def C1_def collide_position dA1C pA1
    by (simp_all add: C_def PLAYER_RADIUS_def)
  have dB1C1: "centerDistance B1 C1 = 62.5"
    unfolding centerDistance_def pB1 pC1 by simp
  have pB2: "px B2 = 133" "py B2 = 100"
    unfolding B2_def collide_position dB1C1 pB1
    by (simp_all add: PLAYER_RADIUS_def)
  have res: "resolveCollisions crowd ! 0 = A2" "resolveCollisions crowd ! 1 = B2"
    unfolding crowd resolveCollisions_three [OF al]
    by (simp_all add: A2_def B2_def A1_def B1_def C1_def)
  have "centerDistance A2 B2 = 26.5"
    unfolding centerDistance_def pA2 pB2 by simp
  with al dAB res show ?thesis
    unfolding crowd by (simp add: PLAYER_RADIUS_def)
qed

text \<open>
  Claim C3, amended: when the two players are the only alive players of the pass, their
  distance after the pass is \<open>2 * PLAYER_RADIUS\<close>, so it is at least their distance before.
  The source resolves each pair once, in index order, and leaves what a later pair undoes
  to the next ticks.
\<close>

theorem lone_pair_separated:
  assumes "i < j" and "j < length ps"
    and "alive (ps ! i)" and "alive (ps ! j)"
    and "\<forall>k < length ps. k \<noteq> i \<and> k \<noteq> j \<longrightarrow> \<not> alive (ps ! k)"
    and "0 < centerDistance (ps ! i) (ps ! j)"
    and "centerDistance (ps ! i) (ps ! j) < 2 * PLAYER_RADIUS"
  shows "centerDistance (resolveCollisions ps ! i) (resolveCollisions ps ! j) = 2 * PLAYER_RADIUS \<and>
         centerDistance (resolveCollisions ps ! i) (resolveCollisions ps ! j)
           \<ge> centerDistance (ps ! i) (ps ! j)"
proof -
  define pre where "pre = take i ps"
  define mid where "mid = take (j - Suc i) (drop (Suc i) ps)"
  define post where "post = drop (Suc j) ps"
  define a where "a = ps ! i"
  define b where "b = ps ! j"
  from assms(1,2) have i: "i < length ps" by simp
  have split1: "ps = pre @ a # drop (Suc i) ps"
    unfolding pre_def a_def using i by (simp add: id_take_nth_drop [symmetric])
  have j': "j - Suc i < length (drop (Suc i) ps)" using assms(1,2) by simp
  have e1: "drop (Suc i) ps =
      mid @ (drop (Suc i) ps ! (j - Suc i)) # drop (Suc (j - Suc i)) (drop (Suc i) ps)"
    unfolding mid_def using j' by (rule id_take_nth_drop)
  have e2: "drop (Suc i) ps ! (j - Suc i) = b"
    unfolding b_def using assms(1,2) by simp
  have "Suc (j - Suc i) + Suc i = Suc j" using assms(1) by simp
  then have e3: "drop (Suc (j - Suc i)) (drop (Suc i) ps) = post"
    unfolding post_def drop_drop by simp
  have split2: "drop (Suc i) ps = mid @ b # post"
    using e1 unfolding e2 e3 .
  from split1 split2 have ps: "ps = pre @ a # mid @ b # post" by simp
  have lpre: "length pre = i" unfolding pre_def using i by simp
  have lmid: "length mid = j - Suc i" unfolding mid_def using j' by simp
  have dpre: "\<forall>p \<in> set pre. \<not> alive p"
  proof
    fix p assume "p \<in> set pre"
    then obtain k where k: "k < length pre" "p = pre ! k" by (auto simp: in_set_conv_nth)
    with lpre have "p = ps ! k" "k < i" unfolding pre_def by simp_all
    with assms(1,2,5) show "\<not> alive p" by simp
  qed
  have dmid: "\<forall>p \<in> set mid. \<not> alive p"
  proof
    fix p assume "p \<in> set mid"
    then obtain k where k: "k < length mid" "p = mid ! k" by (auto simp: in_set_conv_nth)
    with lmid assms(1,2) have "p = ps ! (Suc i + k)" "Suc i + k < j" unfolding mid_def by simp_all
    with assms(1,2,5) show "\<not> alive p" by simp
  qed
  have dpost: "\<forall>p \<in> set post. \<not> alive p"
  proof
    fix p assume "p \<in> set post"
    then obtain k where k: "k < length post" "p = post ! k" by (auto simp: in_set_conv_nth)
    then have "p = ps ! (Suc j + k)" "Suc j + k < length ps" unfolding post_def by simp_all
    with assms(1,5) show "\<not> alive p" by simp
  qed
  have al: "alive a" "alive b" using assms(3,4) by (simp_all add: a_def b_def)
  have res: "resolveCollisions ps = pre @ fst (collide a b) # mid @ snd (collide a b) # post"
    using resolveCollisions_two_alive [OF dpre al(1) dmid al(2) dpost] ps by simp
  have ri: "resolveCollisions ps ! i = fst (collide a b)"
    unfolding res using lpre by (simp add: nth_append)
  have "j = length pre + Suc (length mid)" using lpre lmid assms(1) by simp
  then have rj: "resolveCollisions ps ! j = snd (collide a b)"
    unfolding res by (simp add: nth_append)
  from assms(6,7) have d: "0 < centerDistance a b" "centerDistance a b < 2 * PLAYER_RADIUS"
    by (simp_all add: a_def b_def)
  from collide_separates [OF d] d(2) show ?thesis
    unfolding ri rj a_def [symmetric] b_def [symmetric] by simp
qed

theorem lone_pair_separated_witness:
  "alive (pairWithDead ! 0) \<and> alive (pairWithDead ! 2) \<and> \<not> alive (pairWithDead ! 1) \<and>
   centerDistance (pairWithDead ! 0) (pairWithDead ! 2) = 30 \<and>
   centerDistance (resolveCollisions pairWithDead ! 0) (resolveCollisions pairWithDead ! 2) = 36"
proof -
  have al: "alive (pairWithDead ! 0)" "alive (pairWithDead ! 2)" "\<not> alive (pairWithDead ! 1)"
    by (simp_all add: pairWithDead_def)
  have len: "length pairWithDead = 3" by (simp add: pairWithDead_def)
  have others: "\<forall>k < length pairWithDead. k \<noteq> 0 \<and> k \<noteq> 2 \<longrightarrow> \<not> alive (pairWithDead ! k)"
  proof (intro allI impI)
    fix k assume "k < length pairWithDead" "k \<noteq> 0 \<and> k \<noteq> 2"
    with len have "k = 1" by linarith
    with al(3) show "\<not> alive (pairWithDead ! k)" by simp
  qed
  have d: "centerDistance (pairWithDead ! 0) (pairWithDead ! 2) = 30"
    by (simp add: centerDistance_def pairWithDead_def)
  have d1: "0 < centerDistance (pairWithDead ! 0) (pairWithDead ! 2)"
    and d2: "centerDistance (pairWithDead ! 0) (pairWithDead ! 2) < 2 * PLAYER_RADIUS"
    unfolding d by (simp_all add: PLAYER_RADIUS_def)
  have ij: "(0::nat) < 2" "2 < length pairWithDead" using len by simp_all
  from lone_pair_separated [OF ij al(1,2) others d1 d2] al d show ?thesis
    by (simp add: PLAYER_RADIUS_def)
qed


section \<open>What a tick does to the players\<close>

text \<open>The arena inset by the player radius.\<close>

definition inArena :: "Player \<Rightarrow> bool" where
  "inArena p =
     (PLAYER_RADIUS \<le> px p \<and> px p \<le> WORLD_width - PLAYER_RADIUS \<and>
      PLAYER_RADIUS \<le> py p \<and> py p \<le> WORLD_height - PLAYER_RADIUS)"

lemma integrate_inArena: "inArena (integrate p dt)"
  by (simp add: inArena_def integrate_def Let_def constants)

lemma steps_alive [simp]:
  "alive (accelerate p dt m) = alive p" "alive (dashStep p) = alive p"
  "alive (dampStep p dt) = alive p" "alive (integrate p dt) = alive p"
  by (simp_all add: accelerate_def dashStep_def dampStep_def integrate_def Let_def)

lemma applyInput_alive [simp]: "alive (applyInput p dt m) = alive p"
  by (simp add: applyInput_def)

lemma applyInput_dead: "\<not> alive p \<Longrightarrow> applyInput p dt m = p"
  by (simp add: applyInput_def)

lemma movePlayer_alive [simp]: "alive (movePlayer s dt p) = alive p"
  by (simp add: movePlayer_def Let_def)

lemma movePlayer_dead:
  "\<not> alive p \<Longrightarrow> movePlayer s dt p = p\<lparr>dashCooldown := max 0 (dashCooldown p - dt)\<rparr>"
  by (simp add: movePlayer_def Let_def applyInput_def)

lemma movePlayer_inArena: "alive p \<Longrightarrow> inArena (movePlayer s dt p)"
  by (simp add: movePlayer_def Let_def applyInput_def integrate_inArena)

text \<open>
  What collision resolution keeps of a player: the alive flag, the id, hp and domination
  time, and a dead player as a whole.
\<close>

definition sameIfDead :: "Player \<Rightarrow> Player \<Rightarrow> bool" where
  "sameIfDead p q =
     (alive q = alive p \<and> pid q = pid p \<and> hp q = hp p \<and>
      dominationTime q = dominationTime p \<and> (\<not> alive p \<longrightarrow> q = p))"

lemma collide_frame:
  "sameIfDead a (fst (collide a b))" "sameIfDead b (snd (collide a b))"
  if "alive a" "alive b"
  using that by (simp_all add: sameIfDead_def collide_def Let_def)

lemma sameIfDead_refl: "sameIfDead p p"
  by (simp add: sameIfDead_def)

lemma sameIfDead_trans: "sameIfDead p q \<Longrightarrow> sameIfDead q r \<Longrightarrow> sameIfDead p r"
  by (auto simp: sameIfDead_def)

lemma innerLoop_frame:
  "innerLoop a bs = (a', bs') \<Longrightarrow> alive a \<Longrightarrow> sameIfDead a a' \<and> list_all2 sameIfDead bs bs'"
proof (induction bs arbitrary: a a' bs')
  case Nil
  then show ?case by (auto simp: sameIfDead_refl)
next
  case (Cons b bs)
  show ?case
  proof (cases "alive b")
    case False
    obtain a2 bs2 where run: "innerLoop a bs = (a2, bs2)" by (cases "innerLoop a bs")
    with Cons.prems False have "a' = a2" "bs' = b # bs2" by simp_all
    with Cons.IH [OF run Cons.prems(2)] show ?thesis by (simp add: sameIfDead_refl)
  next
    case True
    obtain a2 bs2 where run: "innerLoop (fst (collide a b)) bs = (a2, bs2)"
      by (cases "innerLoop (fst (collide a b)) bs")
    have al1: "alive (fst (collide a b))" using Cons.prems(2) by (simp add: collide_def Let_def)
    from run Cons.prems True have "a' = a2" "bs' = snd (collide a b) # bs2"
      by (simp_all add: split_def)
    moreover note Cons.IH [OF run al1]
    ultimately have "sameIfDead (fst (collide a b)) a'" "list_all2 sameIfDead bs bs2"
      and "bs' = snd (collide a b) # bs2" by simp_all
    moreover note collide_frame [OF Cons.prems(2) True]
    ultimately have "sameIfDead a a'" "list_all2 sameIfDead (b # bs) bs'"
      by (simp_all add: sameIfDead_trans [of a "fst (collide a b)" a'])
    then show ?thesis by simp
  qed
qed

lemma resolveCollisions_frame: "list_all2 sameIfDead ps (resolveCollisions ps)"
proof (induction ps rule: resolveCollisions.induct)
  case 1
  then show ?case by simp
next
  case (2 a rest)
  show ?case
  proof (cases "alive a")
    case False
    with 2(1) show ?thesis by (simp add: sameIfDead_refl)
  next
    case True
    obtain a' rest' where run: "innerLoop a rest = (a', rest')" by (cases "innerLoop a rest")
    from innerLoop_frame [OF run True] have a: "sameIfDead a a'"
      and r: "list_all2 sameIfDead rest rest'" by simp_all
    from True have "\<not> \<not> alive a" by simp
    from 2(2) [OF this run [symmetric]]
    have "list_all2 sameIfDead rest' (resolveCollisions rest')" .
    with r have "list_all2 sameIfDead rest (resolveCollisions rest')"
      by (rule list_all2_trans [rotated]) (rule sameIfDead_trans)
    then show ?thesis using a True run by simp
  qed
qed

lemma resolveCollisions_length [simp]: "length (resolveCollisions ps) = length ps"
  using resolveCollisions_frame [of ps] by (simp add: list_all2_lengthD)

lemma resolveCollisions_nth:
  assumes "k < length ps"
  shows "alive (resolveCollisions ps ! k) = alive (ps ! k)"
    and "\<not> alive (ps ! k) \<Longrightarrow> resolveCollisions ps ! k = ps ! k"
    and "dominationTime (resolveCollisions ps ! k) = dominationTime (ps ! k)"
    and "hp (resolveCollisions ps ! k) = hp (ps ! k)"
    and "pid (resolveCollisions ps ! k) = pid (ps ! k)"
  using list_all2_nthD [OF resolveCollisions_frame assms] by (simp_all add: sameIfDead_def)

lemma damagePlayer_dead: "\<not> alive p \<Longrightarrow> damagePlayer m s dt p = (p, [])"
  by (simp add: damagePlayer_def)

lemma damagePlayer_position [simp]:
  "px (fst (damagePlayer m s dt p)) = px p" "py (fst (damagePlayer m s dt p)) = py p"
  by (simp_all add: damagePlayer_def Let_def)

lemma damagePlayer_dies:
  "\<not> alive (fst (damagePlayer m s dt p)) \<Longrightarrow> alive p \<Longrightarrow>
     pvx (fst (damagePlayer m s dt p)) = 0 \<and> pvy (fst (damagePlayer m s dt p)) = 0"
  by (simp add: damagePlayer_def Let_def split: if_splits)

lemma damagePlayer_stays_dead: "\<not> alive p \<Longrightarrow> \<not> alive (fst (damagePlayer m s dt p))"
  by (simp add: damagePlayer_dead)

lemma damageLoop_map:
  "fst (damageLoop m s dt ps) = map (\<lambda>p. fst (damagePlayer m s dt p)) ps"
  by (induction ps) (simp_all add: split_def)

lemma event_players [simp]:
  "players (fst (shiftEvent r rnd)) = players r" "players (fst (pulseEvent r)) = players r"
  "players (fst (resizeEvent r rnd)) = players r" "players (fst (accelEvent r)) = players r"
  by (simp_all add: shiftEvent_def pulseEvent_def resizeEvent_def accelEvent_def
      triggerShift_def triggerPulse_def triggerResize_def triggerAccel_def Let_def)

lemma eventPhase_players [simp]: "players (fst (eventPhase r rnd)) = players r"
  by (simp add: eventPhase_def split_def)

lemma checkRoundEnd_players [simp]: "players (fst (checkRoundEnd r)) = players r"
  by (simp add: checkRoundEnd_def Let_def)

lemma advancePhase_players [simp]: "players (advancePhase r dt rnd) = players r"
  by (simp add: advancePhase_def updateCircle_def Let_def)

text \<open>The players a tick of an active room leaves behind.\<close>

definition tickSnapshot :: "Room \<Rightarrow> real \<Rightarrow> Randoms \<Rightarrow> SafeCircleSnapshot" where
  "tickSnapshot room dt rnd = getCircleSnapshot (circle (advancePhase room dt rnd))"

definition movedPlayers :: "Room \<Rightarrow> real \<Rightarrow> Randoms \<Rightarrow> Player list" where
  "movedPlayers room dt rnd = map (movePlayer (tickSnapshot room dt rnd) dt) (players room)"

lemma updateRoom_players:
  "\<not> roundEnded room \<Longrightarrow>
   players (fst (updateRoom room dt rnd)) =
     map (\<lambda>p. fst (damagePlayer (resolveCollisions (movedPlayers room dt rnd))
                     (tickSnapshot room dt rnd) dt p))
         (resolveCollisions (movedPlayers room dt rnd))"
  by (simp add: updateRoom_def split_def damagePhase_def Let_def damageLoop_map
      collidePhase_def movePhase_def movedPlayers_def tickSnapshot_def)

lemma updateRoom_ended:
  "roundEnded room \<Longrightarrow> players (fst (updateRoom room dt rnd)) = players room"
  by (simp add: updateRoom_def)

lemma tick_player_nth:
  assumes "\<not> roundEnded room" and "k < length (players room)"
  shows "players (fst (updateRoom room dt rnd)) ! k =
     fst (damagePlayer (resolveCollisions (movedPlayers room dt rnd)) (tickSnapshot room dt rnd) dt
           (resolveCollisions (movedPlayers room dt rnd) ! k))"
    and "alive (resolveCollisions (movedPlayers room dt rnd) ! k) = alive (players room ! k)"
    and "\<not> alive (players room ! k) \<Longrightarrow>
           resolveCollisions (movedPlayers room dt rnd) ! k =
             (players room ! k)\<lparr>dashCooldown := max 0 (dashCooldown (players room ! k) - dt)\<rparr>"
proof -
  have len: "k < length (movedPlayers room dt rnd)"
    using assms(2) by (simp add: movedPlayers_def)
  have mv: "movedPlayers room dt rnd ! k = movePlayer (tickSnapshot room dt rnd) dt (players room ! k)"
    using assms(2) by (simp add: movedPlayers_def)
  show "players (fst (updateRoom room dt rnd)) ! k =
     fst (damagePlayer (resolveCollisions (movedPlayers room dt rnd)) (tickSnapshot room dt rnd) dt
           (resolveCollisions (movedPlayers room dt rnd) ! k))"
    unfolding updateRoom_players [OF assms(1)] using len by simp
  show al: "alive (resolveCollisions (movedPlayers room dt rnd) ! k) = alive (players room ! k)"
    unfolding resolveCollisions_nth(1) [OF len] mv by simp
  assume dead: "\<not> alive (players room ! k)"
  then have "\<not> alive (movedPlayers room dt rnd ! k)" unfolding mv by simp
  from resolveCollisions_nth(2) [OF len this]
  show "resolveCollisions (movedPlayers room dt rnd) ! k =
             (players room ! k)\<lparr>dashCooldown := max 0 (dashCooldown (players room ! k) - dt)\<rparr>"
    unfolding mv using dead by (simp add: movePlayer_dead)
qed

lemma updateRoom_length [simp]:
  "length (players (fst (updateRoom room dt rnd))) = length (players room)"
proof (cases "roundEnded room")
  case True
  then show ?thesis by (simp add: updateRoom_ended)
next
  case False
  then show ?thesis by (simp add: updateRoom_players movedPlayers_def)
qed

lemma tick_dead_player:
  assumes "k < length (players room)" and "\<not> alive (players room ! k)"
  shows "px (players (fst (updateRoom room dt rnd)) ! k) = px (players room ! k)"
    and "py (players (fst (updateRoom room dt rnd)) ! k) = py (players room ! k)"
    and "pvx (players (fst (updateRoom room dt rnd)) ! k) = pvx (players room ! k)"
    and "pvy (players (fst (updateRoom room dt rnd)) ! k) = pvy (players room ! k)"
    and "hp (players (fst (updateRoom room dt rnd)) ! k) = hp (players room ! k)"
    and "\<not> alive (players (fst (updateRoom room dt rnd)) ! k)"
proof -
  have "players (fst (updateRoom room dt rnd)) ! k = players room ! k \<or>
        players (fst (updateRoom room dt rnd)) ! k =
          (players room ! k)\<lparr>dashCooldown := max 0 (dashCooldown (players room ! k) - dt)\<rparr>"
  proof (cases "roundEnded room")
    case True
    then show ?thesis by (simp add: updateRoom_ended)
  next
    case False
    note t = tick_player_nth [OF False assms(1), of dt rnd]
    have "\<not> alive ((players room ! k)\<lparr>dashCooldown := max 0 (dashCooldown (players room ! k) - dt)\<rparr>)"
      using assms(2) by simp
    then show ?thesis
      unfolding t(1) t(3) [OF assms(2)] by (simp add: damagePlayer_dead)
  qed
  with assms(2) show "px (players (fst (updateRoom room dt rnd)) ! k) = px (players room ! k)"
    and "py (players (fst (updateRoom room dt rnd)) ! k) = py (players room ! k)"
    and "pvx (players (fst (updateRoom room dt rnd)) ! k) = pvx (players room ! k)"
    and "pvy (players (fst (updateRoom room dt rnd)) ! k) = pvy (players room ! k)"
    and "hp (players (fst (updateRoom room dt rnd)) ! k) = hp (players room ! k)"
    and "\<not> alive (players (fst (updateRoom room dt rnd)) ! k)"
    by auto
qed

lemma tick_dying_player:
  assumes "j < length (players room)" and "alive (players room ! j)"
    and "\<not> alive (players (fst (updateRoom room dt rnd)) ! j)"
  shows "pvx (players (fst (updateRoom room dt rnd)) ! j) = 0 \<and>
         pvy (players (fst (updateRoom room dt rnd)) ! j) = 0"
proof (cases "roundEnded room")
  case True
  with assms(2,3) show ?thesis by (simp add: updateRoom_ended)
next
  case False
  note t = tick_player_nth [OF False assms(1), of dt rnd]
  from assms(2) t(2) have "alive (resolveCollisions (movedPlayers room dt rnd) ! j)" by simp
  with assms(3) show ?thesis
    unfolding t(1) by (intro damagePlayer_dies)
qed

lemma tick_keeps_dead_still:
  assumes "\<forall>p \<in> set (players room). \<not> alive p \<longrightarrow> pvx p = 0 \<and> pvy p = 0"
  shows "\<forall>p \<in> set (players (fst (updateRoom room dt rnd))). \<not> alive p \<longrightarrow> pvx p = 0 \<and> pvy p = 0"
proof (intro ballI impI)
  fix p assume "p \<in> set (players (fst (updateRoom room dt rnd)))" and dead: "\<not> alive p"
  then obtain j where j: "j < length (players room)"
    and p: "p = players (fst (updateRoom room dt rnd)) ! j"
    by (auto simp: in_set_conv_nth)
  show "pvx p = 0 \<and> pvy p = 0"
  proof (cases "alive (players room ! j)")
    case True
    with j dead show ?thesis unfolding p by (intro tick_dying_player)
  next
    case False
    from j have "players room ! j \<in> set (players room)" by simp
    with assms False have "pvx (players room ! j) = 0 \<and> pvy (players room ! j) = 0" by blast
    with tick_dead_player(3,4) [OF j False, of dt rnd] show ?thesis unfolding p by simp
  qed
qed

section \<open>Movement and the arena bounds\<close>

text \<open>Two idle players in contact, the first of them touching the left wall.\<close>

definition wallRoom :: Room where
  "wallRoom = (createRoom ''X'')
     \<lparr>players := [examplePlayer ''A'' 1 18 100, examplePlayer ''B'' 2 36 100]\<rparr>"

text \<open>A player that runs and dashes into the top right corner.\<close>

definition runner :: Player where
  "runner = (examplePlayer ''R'' 7 1180 20)
     \<lparr>pvx := 500, pvy := - 500,
      input := \<lparr>up = True, down = False, left = False, right = True, dash = True\<rparr>\<rparr>"

lemma movePlayer_idle:
  assumes "0 \<le> dt" and "inArena (examplePlayer k n x0 y0)"
  shows "movePlayer s dt (examplePlayer k n x0 y0) = examplePlayer k n x0 y0"
proof -
  have acc: "accelerate ((examplePlayer k n x0 y0)\<lparr>dashCooldown := 0\<rparr>) dt m
      = examplePlayer k n x0 y0" for m
    by (simp add: accelerate_def inputDirection_def normalize_def examplePlayer_def Let_def)
  have dsh: "dashStep (examplePlayer k n x0 y0) = examplePlayer k n x0 y0"
    by (simp add: dashStep_def examplePlayer_def)
  have dmp: "dampStep (examplePlayer k n x0 y0) dt = examplePlayer k n x0 y0"
    by (simp add: dampStep_def clampMagnitude_def examplePlayer_def Let_def MAX_SPEED_def)
  have int: "integrate (examplePlayer k n x0 y0) dt = examplePlayer k n x0 y0"
    using assms(2) by (simp add: integrate_def inArena_def examplePlayer_def Let_def)
  have cool: "(examplePlayer k n x0 y0)\<lparr>dashCooldown := max 0 (dashCooldown (examplePlayer k n x0 y0) - dt)\<rparr>
      = (examplePlayer k n x0 y0)\<lparr>dashCooldown := 0\<rparr>"
    using assms(1) by (simp add: examplePlayer_def)
  show ?thesis
    unfolding movePlayer_def Let_def cool applyInput_def
    by (simp add: acc dsh dmp int)
qed

lemma resolveCollisions_two:
  "alive a \<Longrightarrow> alive b \<Longrightarrow> resolveCollisions [a, b] = [fst (collide a b), snd (collide a b)]"
  by (simp add: split_def)

text \<open>
  Claim C2, as the specification states it: the bound holds for the positions a tick
  leaves behind. \<^verbatim>\<open>resolveCollisions\<close> runs after the movement loop and moves the players
  of an overlapping pair apart with no clamp after it. In the room below both players are
  within the bounds before the tick and after its movement phase; collision resolution
  then pushes the first one from \<open>x = 18\<close> to \<open>x = 9\<close>, and that is where the tick
  leaves it.
\<close>

theorem collision_pushes_out_of_arena:
  "\<not> roundEnded wallRoom \<and>
   inArena (players wallRoom ! 0) \<and> inArena (players wallRoom ! 1) \<and>
   inArena (players (movePhase (advancePhase wallRoom (1 / 30) halfRandoms) (1 / 30)) ! 0) \<and>
   px (players (fst (updateRoom wallRoom (1 / 30) halfRandoms)) ! 0) = 9 \<and>
   9 < PLAYER_RADIUS \<and>
   \<not> inArena (players (fst (updateRoom wallRoom (1 / 30) halfRandoms)) ! 0)"
proof -
  define A where "A = examplePlayer ''A'' 1 18 100"
  define B where "B = examplePlayer ''B'' 2 36 100"
  have ps: "players wallRoom = [A, B]" by (simp add: wallRoom_def A_def B_def)
  have act: "\<not> roundEnded wallRoom" by (simp add: wallRoom_def createRoom_def)
  have inA: "inArena A" "inArena B"
    by (simp_all add: inArena_def A_def B_def constants)
  have dt: "(0::real) \<le> 1 / 30" by simp
  have mv: "movePlayer s (1 / 30) A = A" "movePlayer s (1 / 30) B = B" for s
    using movePlayer_idle [OF dt] inA by (simp_all add: A_def B_def)
  have moved: "movedPlayers wallRoom (1 / 30) halfRandoms = [A, B]"
    by (simp add: movedPlayers_def ps mv)
  have moved': "players (movePhase (advancePhase wallRoom (1 / 30) halfRandoms) (1 / 30)) = [A, B]"
    by (simp add: movePhase_def Let_def ps mv)
  have al: "alive A" "alive B" by (simp_all add: A_def B_def)
  have d: "centerDistance A B = 18" by (simp add: centerDistance_def A_def B_def)
  have "px (fst (collide A B)) = 9"
    unfolding collide_position d by (simp add: A_def B_def PLAYER_RADIUS_def)
  then have after: "px (players (fst (updateRoom wallRoom (1 / 30) halfRandoms)) ! 0) = 9"
    unfolding updateRoom_players [OF act] moved resolveCollisions_two [OF al] by simp
  have "\<not> inArena (players (fst (updateRoom wallRoom (1 / 30) halfRandoms)) ! 0)"
    unfolding inArena_def after by (simp add: PLAYER_RADIUS_def)
  with act inA after show ?thesis
    unfolding ps moved' by (simp add: PLAYER_RADIUS_def)
qed

text \<open>
  Claim C2, amended: for every alive player, the position that \<^verbatim>\<open>applyInput\<close> leaves lies
  within \<open>[PLAYER_RADIUS, WORLD_width - PLAYER_RADIUS] \<times> [PLAYER_RADIUS, WORLD_height -
  PLAYER_RADIUS]\<close>, so every alive player is within these bounds when the movement loop of
  a tick is done. (\<^verbatim>\<open>applyInput\<close> returns at once for a dead player.)
\<close>

theorem movement_clamps_position:
  "(alive player \<longrightarrow> inArena (applyInput player dt speedMultiplier)) \<and>
   (\<forall>p \<in> set (players (movePhase room dt)). alive p \<longrightarrow> inArena p)"
proof
  show "alive player \<longrightarrow> inArena (applyInput player dt speedMultiplier)"
    by (simp add: applyInput_def integrate_inArena)
  show "\<forall>p \<in> set (players (movePhase room dt)). alive p \<longrightarrow> inArena p"
  proof (intro ballI impI)
    fix p assume "p \<in> set (players (movePhase room dt))" and al: "alive p"
    then obtain q where "q \<in> set (players room)"
      and p: "p = movePlayer (getCircleSnapshot (circle room)) dt q"
      by (auto simp: movePhase_def Let_def)
    from al p have "alive q" by simp
    then show "inArena p" unfolding p by (rule movePlayer_inArena)
  qed
qed

theorem movement_clamps_position_witness:
  "alive runner \<and> inArena (applyInput runner (1 / 30) 1) \<and>
   list_all inArena (filter alive (players (movePhase wallRoom (1 / 30))))"
proof -
  have al: "alive runner" by (simp add: runner_def)
  from movement_clamps_position [of runner "1 / 30" 1 wallRoom] al
  show ?thesis by (simp add: list_all_iff)
qed


section \<open>Dead players\<close>

text \<open>
  Claim C6, as the specification states it: once a player is dead no operation changes
  its position or health until it is removed. A round reset does: \<^verbatim>\<open>resetRoomRound\<close>
  sets \<^verbatim>\<open>hp = 100\<close> and \<^verbatim>\<open>alive = true\<close> for every player of the room. The first player
  of the ended example room is dead with hp 0, and after the reset it is still in the
  room, with hp 100.
\<close>

theorem reset_revives_dead_player:
  "\<not> alive (players endedRoom ! 0) \<and> hp (players endedRoom ! 0) = 0 \<and>
   length (players (resetRoomRound endedRoom)) = length (players endedRoom) \<and>
   pid (players (resetRoomRound endedRoom) ! 0) = pid (players endedRoom ! 0) \<and>
   hp (players (resetRoomRound endedRoom) ! 0) = 100"
  by (simp add: endedRoom_def duelRoom_def examplePlayer_def resetRoomRound_def resetPlayer_def)

text \<open>
  Claim C6, amended: movement integration, collision resolution and the damage and
  domination pass each leave a dead player as it is, and a whole tick leaves a dead
  player dead, with its position, velocity and hp unchanged (its dash cooldown still
  runs down). A player that dies in a tick has velocity zero after it, so a tick keeps
  the velocity of every dead player at zero. A dead player stays so until it is removed
  or a round reset revives it, with hp 100 and its position kept.
\<close>

theorem dead_player_frozen:
  assumes "k < length (players room)" and "\<not> alive (players room ! k)"
  shows "applyInput (players room ! k) dt m = players room ! k \<and>
         resolveCollisions (players room) ! k = players room ! k \<and>
         damagePlayer members s dt (players room ! k) = (players room ! k, []) \<and>
         length (players (fst (updateRoom room dt rnd))) = length (players room) \<and>
         px (players (fst (updateRoom room dt rnd)) ! k) = px (players room ! k) \<and>
         py (players (fst (updateRoom room dt rnd)) ! k) = py (players room ! k) \<and>
         pvx (players (fst (updateRoom room dt rnd)) ! k) = pvx (players room ! k) \<and>
         pvy (players (fst (updateRoom room dt rnd)) ! k) = pvy (players room ! k) \<and>
         hp (players (fst (updateRoom room dt rnd)) ! k) = hp (players room ! k) \<and>
         \<not> alive (players (fst (updateRoom room dt rnd)) ! k) \<and>
         (\<forall>j < length (players room).
            alive (players room ! j) \<and> \<not> alive (players (fst (updateRoom room dt rnd)) ! j) \<longrightarrow>
            pvx (players (fst (updateRoom room dt rnd)) ! j) = 0 \<and>
            pvy (players (fst (updateRoom room dt rnd)) ! j) = 0) \<and>
         ((\<forall>p \<in> set (players room). \<not> alive p \<longrightarrow> pvx p = 0 \<and> pvy p = 0) \<longrightarrow>
          (\<forall>p \<in> set (players (fst (updateRoom room dt rnd))).
             \<not> alive p \<longrightarrow> pvx p = 0 \<and> pvy p = 0)) \<and>
         alive (players (resetRoomRound room) ! k) \<and>
         hp (players (resetRoomRound room) ! k) = 100 \<and>
         px (players (resetRoomRound room) ! k) = px (players room ! k) \<and>
         py (players (resetRoomRound room) ! k) = py (players room ! k)"
proof -
  have a: "applyInput (players room ! k) dt m = players room ! k"
    using assms(2) by (rule applyInput_dead)
  have b: "resolveCollisions (players room) ! k = players room ! k"
    using assms by (rule resolveCollisions_nth(2))
  have c: "damagePlayer members s dt (players room ! k) = (players room ! k, [])"
    using assms(2) by (rule damagePlayer_dead)
  have d: "\<forall>j < length (players room).
            alive (players room ! j) \<and> \<not> alive (players (fst (updateRoom room dt rnd)) ! j) \<longrightarrow>
            pvx (players (fst (updateRoom room dt rnd)) ! j) = 0 \<and>
            pvy (players (fst (updateRoom room dt rnd)) ! j) = 0"
    using tick_dying_player by blast
  have e: "alive (players (resetRoomRound room) ! k)"
    "hp (players (resetRoomRound room) ! k) = 100"
    "px (players (resetRoomRound room) ! k) = px (players room ! k)"
    "py (players (resetRoomRound room) ! k) = py (players room ! k)"
    using assms(1) by (simp_all add: resetRoomRound_def resetPlayer_def)
  have f: "(\<forall>p \<in> set (players room). \<not> alive p \<longrightarrow> pvx p = 0 \<and> pvy p = 0) \<longrightarrow>
          (\<forall>p \<in> set (players (fst (updateRoom room dt rnd))).
             \<not> alive p \<longrightarrow> pvx p = 0 \<and> pvy p = 0)"
    using tick_keeps_dead_still by blast
  from a b c d e f tick_dead_player [OF assms, of dt rnd] updateRoom_length [of room dt rnd]
  show ?thesis by blast
qed

theorem dead_player_frozen_witness:
  "0 < length (players duelRoom) \<and> \<not> alive (players duelRoom ! 0) \<and>
   px (players (fst (updateRoom duelRoom (1 / 30) halfRandoms)) ! 0) = 600 \<and>
   py (players (fst (updateRoom duelRoom (1 / 30) halfRandoms)) ! 0) = 400 \<and>
   pvx (players (fst (updateRoom duelRoom (1 / 30) halfRandoms)) ! 0) = 0 \<and>
   pvy (players (fst (updateRoom duelRoom (1 / 30) halfRandoms)) ! 0) = 0 \<and>
   hp (players (fst (updateRoom duelRoom (1 / 30) halfRandoms)) ! 0) = 0 \<and>
   \<not> alive (players (fst (updateRoom duelRoom (1 / 30) halfRandoms)) ! 0) \<and>
   hp (players (resetRoomRound duelRoom) ! 0) = 100"
proof -
  have h: "0 < length (players duelRoom)" "\<not> alive (players duelRoom ! 0)"
    by (simp_all add: duelRoom_def examplePlayer_def)
  have f: "px (players duelRoom ! 0) = 600" "py (players duelRoom ! 0) = 400"
    "pvx (players duelRoom ! 0) = 0" "pvy (players duelRoom ! 0) = 0"
    "hp (players duelRoom ! 0) = 0"
    by (simp_all add: duelRoom_def examplePlayer_def)
  from dead_player_frozen [OF h, of "1 / 30" 1 "[]" "getCircleSnapshot initialCircle" halfRandoms] h
  show ?thesis unfolding f by blast
qed

section \<open>The state in which the round-end check runs\<close>

text \<open>
  \<^verbatim>\<open>updateRoom\<close> calls \<^verbatim>\<open>checkRoundEnd\<close> only in its active branch, on a room whose
  \<open>roundEnded\<close> is still false; the domination times, which start at 0, stay
  non-negative over the ticks; and no tick ends the round of a room with fewer than two
  players.
\<close>

lemma tick_check_active:
  "\<not> roundEnded room \<Longrightarrow>
   \<not> roundEnded (fst (eventPhase (fst (damagePhase (collidePhase (movePhase
        (advancePhase room dt rnd) dt)) dt)) rnd))"
  by (simp add: eventPhase_def shiftEvent_def pulseEvent_def resizeEvent_def accelEvent_def
      triggerShift_def triggerPulse_def triggerResize_def triggerAccel_def damagePhase_def
      collidePhase_def movePhase_def advancePhase_def updateCircle_def Let_def split_def)

lemma movePlayer_domination [simp]:
  "dominationTime (movePlayer s dt p) = dominationTime p"
  by (simp add: movePlayer_def applyInput_def integrate_def dampStep_def dashStep_def
      accelerate_def Let_def)

lemma damagePlayer_domination:
  "0 \<le> dt \<Longrightarrow> dominationTime p \<le> dominationTime (fst (damagePlayer m s dt p))"
  by (simp add: damagePlayer_def Let_def)

lemma tick_domination_nonneg:
  assumes "0 \<le> dt" and "\<forall>p \<in> set (players room). 0 \<le> dominationTime p"
  shows "\<forall>p \<in> set (players (fst (updateRoom room dt rnd))). 0 \<le> dominationTime p"
proof (cases "roundEnded room")
  case True
  with assms(2) show ?thesis by (simp add: updateRoom_ended)
next
  case False
  show ?thesis
  proof
    fix p assume "p \<in> set (players (fst (updateRoom room dt rnd)))"
    then obtain k where k: "k < length (players room)"
      and p: "p = players (fst (updateRoom room dt rnd)) ! k"
      by (auto simp: in_set_conv_nth)
    have len: "k < length (movedPlayers room dt rnd)" using k by (simp add: movedPlayers_def)
    have "dominationTime (resolveCollisions (movedPlayers room dt rnd) ! k) =
          dominationTime (players room ! k)"
      unfolding resolveCollisions_nth(3) [OF len] using k by (simp add: movedPlayers_def)
    moreover have "0 \<le> dominationTime (players room ! k)" using assms(2) k by simp
    ultimately show "0 \<le> dominationTime p"
      unfolding p tick_player_nth(1) [OF False k]
      using damagePlayer_domination [OF assms(1),
          of "resolveCollisions (movedPlayers room dt rnd) ! k"
             "resolveCollisions (movedPlayers room dt rnd)" "tickSnapshot room dt rnd"]
      by linarith
  qed
qed

lemma solo_room_tick_stays_active:
  assumes "length (players room) < 2" and "\<not> roundEnded room"
  shows "\<not> roundEnded (fst (updateRoom room dt rnd))"
proof -
  define r2 where "r2 = fst (eventPhase (fst (damagePhase (collidePhase (movePhase
      (advancePhase room dt rnd) dt)) dt)) rnd)"
  have "length (players r2) = length (players room)"
    unfolding r2_def
    by (simp add: damagePhase_def split_def Let_def damageLoop_map collidePhase_def movePhase_def)
  with assms(1) have "checkRoundEnd r2 = (r2, [])"
    by (simp add: checkRoundEnd_def)
  moreover have "\<not> roundEnded r2"
    unfolding r2_def using assms(2) by (rule tick_check_active)
  ultimately show ?thesis
    using assms(2) by (simp add: updateRoom_def split_def r2_def)
qed

end
